theory Spec2Isabelle
  imports Main
begin

section \<open>A shallow embedding of \<^verbatim>\<open>shell.c\<close>\<close>

text \<open>
  The shell is a single C file. Its functions are embedded here as HOL functions over an
  explicit state of the interpreter process. What the operating system decides (whether
  an allocation, a \<^verbatim>\<open>fork\<close> or a \<^verbatim>\<open>pipe\<close> succeeds, what \<^verbatim>\<open>waitpid\<close> reports,
  where \<^verbatim>\<open>chdir\<close> leads) is read from an environment record, indexed by the number of
  the call, so every branch of the C code on a system call's result is a branch here.

  Two things of the C program are outside the embedding. Argument vectors are HOL lists
  of strings, so \<^verbatim>\<open>free\<close> and \<^verbatim>\<open>free_args\<close> have no counterpart: the embedding says
  nothing about what releasing memory does, in particular not about \<^verbatim>\<open>free_args\<close> on
  \<^verbatim>\<open>command2\<close>, which points into the array that \<^verbatim>\<open>free_args(command1)\<close> has released,
  nor about \<^verbatim>\<open>free_args\<close> on an array whose terminating \<^verbatim>\<open>NULL\<close> was never written (the
  path of too many arguments). A child process is followed from \<^verbatim>\<open>fork\<close> to its
  \<^verbatim>\<open>execvp\<close> or \<^verbatim>\<open>exit\<close>; what the program it becomes does afterwards, reading the
  shared standard input included, is the environment's business.
\<close>

subsection \<open>Constants\<close>

definition MAX_LINE_LENGTH :: nat where
  "MAX_LINE_LENGTH = 1024"

definition MAX_ARGS :: nat where
  "MAX_ARGS = 64"

definition TOKEN_DELIMITERS :: string where
  "TOKEN_DELIMITERS = [CHR '' '', CHR 0x09, CHR 0x0A]"

definition builtin_commands :: "string list" where
  "builtin_commands = [''cd'', ''exit'']"

subsection \<open>The process state and the environment\<close>

datatype disposition = SIG_IGN | SIG_DFL

datatype endpoint = Terminal | Pipe_read nat | Pipe_write nat

type_synonym fd_table = "endpoint option list"

datatype wstatus = Exited nat | Signaled nat | Stopped nat

datatype wait_result = Wait_failed | Wait_blocks | Wait_status wstatus

datatype wait_options = No_options | WUNTRACED

datatype report = Perror string | Message string

datatype syscall =
    Sys_signal disposition
  | Sys_pipe nat nat
  | Sys_pipe_failed
  | Sys_fork nat
  | Sys_fork_failed
  | Sys_close nat
  | Sys_dup2 nat nat
  | Sys_dup2_failed nat nat
  | Sys_waitpid nat wait_options
  | Sys_kill nat
  | Sys_chdir string
  | Sys_execvp "string list"
  | Sys_exit nat

datatype child_end = Exec "string list" | Exit_status nat

text \<open>
  A child: the copy of the interpreter that \<^verbatim>\<open>fork\<close> made, after it has run the child
  branch of the C code up to \<^verbatim>\<open>execvp\<close> or \<^verbatim>\<open>exit\<close>. \<open>child_end\<close> is \<open>None\<close> while
  the branch is still running.
\<close>

record child =
  child_pid :: nat
  child_sigint :: disposition
  child_fds :: fd_table
  child_stderr :: "report list"
  child_trace :: "syscall list"
  child_end :: "child_end option"

text \<open>
  The environment. \<open>alloc_fails k\<close>: the \<open>k\<close>-th \<^verbatim>\<open>malloc\<close>/\<^verbatim>\<open>strdup\<close> of the session
  returns \<^verbatim>\<open>NULL\<close>; likewise for \<^verbatim>\<open>fork\<close> and \<^verbatim>\<open>pipe\<close>. \<open>waitpid_res k\<close> is what
  the \<open>k\<close>-th \<^verbatim>\<open>waitpid\<close> does. \<open>chdir_res cwd path\<close> is the directory \<^verbatim>\<open>chdir(path)\<close>
  leads to from \<open>cwd\<close>, or \<open>None\<close> when it fails. \<open>dup2_fails pid\<close> and \<open>exec_fails\<close>
  decide the calls made in a child.
\<close>

record env =
  alloc_fails :: "nat \<Rightarrow> bool"
  fork_fails :: "nat \<Rightarrow> bool"
  pipe_fails :: "nat \<Rightarrow> bool"
  waitpid_res :: "nat \<Rightarrow> wait_result"
  chdir_res :: "string \<Rightarrow> string \<Rightarrow> string option"
  HOME :: "string option"
  dup2_fails :: "nat \<Rightarrow> bool"
  exec_fails :: "string list \<Rightarrow> bool"

record shell =
  cwd :: string
  sigint :: disposition
  fdtab :: fd_table
  stdout_log :: "string list"
  stderr_log :: "report list"
  children :: "child list"
  trace :: "syscall list"
  n_alloc :: nat
  n_fork :: nat
  n_pipe :: nat
  n_wait :: nat

definition perror :: "string \<Rightarrow> shell \<Rightarrow> shell" where
  "perror prefix s = s\<lparr>stderr_log := stderr_log s @ [Perror prefix]\<rparr>"

definition eprint :: "string \<Rightarrow> shell \<Rightarrow> shell" where
  "eprint msg s = s\<lparr>stderr_log := stderr_log s @ [Message msg]\<rparr>"

definition print :: "string \<Rightarrow> shell \<Rightarrow> shell" where
  "print msg s = s\<lparr>stdout_log := stdout_log s @ [msg]\<rparr>"

definition sys :: "syscall \<Rightarrow> shell \<Rightarrow> shell" where
  "sys c s = s\<lparr>trace := trace s @ [c]\<rparr>"

text \<open>\<^verbatim>\<open>malloc\<close> and \<^verbatim>\<open>strdup\<close>: the flag says whether the pointer is not \<^verbatim>\<open>NULL\<close>.\<close>

definition alloc :: "env \<Rightarrow> shell \<Rightarrow> bool \<times> shell" where
  "alloc e s = (\<not> alloc_fails e (n_alloc s), s\<lparr>n_alloc := Suc (n_alloc s)\<rparr>)"

subsection \<open>Reading a line\<close>

text \<open>
  \<^verbatim>\<open>fgets(buffer, n, stdin)\<close> stores at most \<open>n - 1\<close> characters and stops after a
  newline; with nothing left to read it returns \<^verbatim>\<open>NULL\<close>. The result is the buffer and
  the unread input.
\<close>

fun fgets_chars :: "nat \<Rightarrow> string \<Rightarrow> string \<times> string" where
  "fgets_chars 0 cs = ([], cs)"
| "fgets_chars (Suc n) [] = ([], [])"
| "fgets_chars (Suc n) (c # cs) =
     (if c = CHR 0x0A then ([c], cs)
      else (c # fst (fgets_chars n cs), snd (fgets_chars n cs)))"

definition fgets :: "nat \<Rightarrow> string \<Rightarrow> (string \<times> string) option" where
  "fgets n input = (if input = [] then None else Some (fgets_chars (n - 1) input))"

text \<open>The C string held by a buffer ends at the first NUL.\<close>

definition c_string :: "string \<Rightarrow> string" where
  "c_string buf = takeWhile (\<lambda>c. c \<noteq> CHR 0x00) buf"

definition read_line :: "env \<Rightarrow> string \<Rightarrow> shell \<Rightarrow> (string \<times> string) option \<times> shell" where
  "read_line e input s =
     (let (ok, s1) = alloc e s in
      if \<not> ok then (None, perror ''malloc failed in read_line'' s1)
      else (case fgets MAX_LINE_LENGTH input of
              None \<Rightarrow> (None, s1)
            | Some (buffer, rest) \<Rightarrow>
                (let len = length (c_string buffer) in
                 if len > 0 \<and> c_string buffer ! (len - 1) = CHR 0x0A
                 then (Some (take (len - 1) (c_string buffer), rest), s1)
                 else (Some (c_string buffer, rest), s1))))"

subsection \<open>Tokenizing\<close>

text \<open>
  \<^verbatim>\<open>strtok\<close> on what is left of the line: skip the delimiters, and if anything is left
  the token runs up to the next delimiter, which is consumed. The result is the token
  and the rest that the next call \<^verbatim>\<open>strtok(NULL, ...)\<close> continues from.
\<close>

definition is_delim :: "char \<Rightarrow> bool" where
  "is_delim c = (c \<in> set TOKEN_DELIMITERS)"

definition strtok :: "string \<Rightarrow> (string \<times> string) option" where
  "strtok cs =
     (let start = dropWhile is_delim cs in
      if start = [] then None
      else Some (takeWhile (\<lambda>c. \<not> is_delim c) start,
                 drop 1 (dropWhile (\<lambda>c. \<not> is_delim c) start)))"

text \<open>
  The loop \<^verbatim>\<open>while (token != NULL && i < MAX_ARGS)\<close> of \<^verbatim>\<open>parse_line\<close>. The index \<open>i\<close> is
  the number of arguments stored so far. The result is \<open>None\<close> when a \<^verbatim>\<open>strdup\<close> failed,
  and otherwise the token the loop stopped at with the arguments.
\<close>

function tokenize_loop ::
  "env \<Rightarrow> (string \<times> string) option \<Rightarrow> string list \<Rightarrow> shell
     \<Rightarrow> ((string \<times> string) option \<times> string list) option \<times> shell" where
  "tokenize_loop e token args s =
     (case token of
        None \<Rightarrow> (Some (None, args), s)
      | Some (t, rest) \<Rightarrow>
          if length args < MAX_ARGS then
            (if \<not> fst (alloc e s) then (None, snd (alloc e s))
             else tokenize_loop e (strtok rest) (args @ [t]) (snd (alloc e s)))
          else (Some (token, args), s))"
  by pat_completeness auto

termination
proof -
  have shorter: "length r < length cs" if tok: "strtok cs = Some (u, r)" for cs u r
  proof -
    define start where "start = dropWhile is_delim cs"
    from tok have ne: "start \<noteq> []"
      and r: "r = drop 1 (dropWhile (\<lambda>c. \<not> is_delim c) start)"
      by (auto simp: strtok_def start_def Let_def split: if_splits)
    have le: "length (dropWhile (\<lambda>c. \<not> is_delim c) start) \<le> length start"
      by (rule length_dropWhile_le)
    have "length start \<le> length cs"
      unfolding start_def by (rule length_dropWhile_le)
    moreover from ne le have "length r < length start"
      unfolding r by (cases start) auto
    ultimately show ?thesis by simp
  qed
  show ?thesis
    by (relation "measure (\<lambda>(e, token, args, s).
          case token of None \<Rightarrow> 0 | Some (t, rest) \<Rightarrow> Suc (length rest))")
       (auto split: option.splits dest: shorter)
qed

declare tokenize_loop.simps [simp del]

subsection \<open>Descriptors\<close>

text \<open>
  The descriptor table of a process: entry \<open>fd\<close> is what descriptor \<open>fd\<close> is open on. A
  new descriptor is the lowest one that is free.
\<close>

fun fd_alloc :: "fd_table \<Rightarrow> endpoint \<Rightarrow> nat \<times> fd_table" where
  "fd_alloc [] ep = (0, [Some ep])"
| "fd_alloc (None # t) ep = (0, Some ep # t)"
| "fd_alloc (Some x # t) ep = (Suc (fst (fd_alloc t ep)), Some x # snd (fd_alloc t ep))"

definition fd_lookup :: "fd_table \<Rightarrow> nat \<Rightarrow> endpoint option" where
  "fd_lookup t fd = (if fd < length t then t ! fd else None)"

definition fd_close :: "nat \<Rightarrow> fd_table \<Rightarrow> fd_table" where
  "fd_close fd t = (if fd < length t then t[fd := None] else t)"

definition fd_set :: "nat \<Rightarrow> endpoint option \<Rightarrow> fd_table \<Rightarrow> fd_table" where
  "fd_set fd v t =
     (if fd < length t then t[fd := v] else t @ replicate (fd - length t) None @ [v])"

subsection \<open>System calls of the interpreter process\<close>

definition signal :: "disposition \<Rightarrow> shell \<Rightarrow> shell" where
  "signal d s = sys (Sys_signal d) (s\<lparr>sigint := d\<rparr>)"

definition pipe :: "env \<Rightarrow> shell \<Rightarrow> (nat \<times> nat) option \<times> shell" where
  "pipe e s =
     (if pipe_fails e (n_pipe s)
      then (None, sys Sys_pipe_failed (s\<lparr>n_pipe := Suc (n_pipe s)\<rparr>))
      else (let r = fd_alloc (fdtab s) (Pipe_read (n_pipe s));
                w = fd_alloc (snd r) (Pipe_write (n_pipe s))
            in (Some (fst r, fst w),
                sys (Sys_pipe (fst r) (fst w)) (s\<lparr>fdtab := snd w, n_pipe := Suc (n_pipe s)\<rparr>))))"

definition close :: "nat \<Rightarrow> shell \<Rightarrow> shell" where
  "close fd s = sys (Sys_close fd) (s\<lparr>fdtab := fd_close fd (fdtab s)\<rparr>)"

text \<open>The pid of the \<open>k\<close>-th child of the session is \<open>k + 1\<close>; \<open>None\<close> is the result \<open>-1\<close>.\<close>

definition fork :: "env \<Rightarrow> shell \<Rightarrow> nat option \<times> shell" where
  "fork e s =
     (if fork_fails e (n_fork s)
      then (None, sys Sys_fork_failed (s\<lparr>n_fork := Suc (n_fork s)\<rparr>))
      else (Some (Suc (n_fork s)),
            sys (Sys_fork (Suc (n_fork s))) (s\<lparr>n_fork := Suc (n_fork s)\<rparr>)))"

definition kill :: "nat \<Rightarrow> shell \<Rightarrow> shell" where
  "kill pid s = sys (Sys_kill pid) s"

text \<open>
  \<^verbatim>\<open>waitpid\<close> returns when the environment reports a status or an error; a call that
  blocks for ever has no result.
\<close>

definition waitpid :: "env \<Rightarrow> nat \<Rightarrow> wait_options \<Rightarrow> shell \<Rightarrow> (wait_result \<times> shell) option" where
  "waitpid e pid opts s =
     (if waitpid_res e (n_wait s) = Wait_blocks then None
      else Some (waitpid_res e (n_wait s),
                 sys (Sys_waitpid pid opts) (s\<lparr>n_wait := Suc (n_wait s)\<rparr>)))"

fun WIFEXITED :: "wstatus \<Rightarrow> bool" where
  "WIFEXITED (Exited n) = True"
| "WIFEXITED _ = False"

fun WIFSIGNALED :: "wstatus \<Rightarrow> bool" where
  "WIFSIGNALED (Signaled n) = True"
| "WIFSIGNALED _ = False"

text \<open>\<^verbatim>\<open>chdir\<close>: the flag says whether it returned 0.\<close>

definition chdir :: "env \<Rightarrow> string \<Rightarrow> shell \<Rightarrow> bool \<times> shell" where
  "chdir e path s =
     (case chdir_res e (cwd s) path of
        None \<Rightarrow> (False, sys (Sys_chdir path) s)
      | Some d \<Rightarrow> (True, sys (Sys_chdir path) (s\<lparr>cwd := d\<rparr>)))"

subsection \<open>The child branches\<close>

definition forked :: "nat \<Rightarrow> shell \<Rightarrow> child" where
  "forked pid s =
     \<lparr>child_pid = pid, child_sigint = sigint s, child_fds = fdtab s, child_stderr = [],
      child_trace = [], child_end = None\<rparr>"

definition child_signal :: "disposition \<Rightarrow> child \<Rightarrow> child" where
  "child_signal d c = c\<lparr>child_sigint := d, child_trace := child_trace c @ [Sys_signal d]\<rparr>"

definition child_close :: "nat \<Rightarrow> child \<Rightarrow> child" where
  "child_close fd c =
     c\<lparr>child_fds := fd_close fd (child_fds c), child_trace := child_trace c @ [Sys_close fd]\<rparr>"

definition child_dup2 :: "env \<Rightarrow> nat \<Rightarrow> nat \<Rightarrow> child \<Rightarrow> bool \<times> child" where
  "child_dup2 e old new c =
     (if dup2_fails e (child_pid c) \<or> fd_lookup (child_fds c) old = None
      then (False, c\<lparr>child_trace := child_trace c @ [Sys_dup2_failed old new]\<rparr>)
      else (True, c\<lparr>child_fds := fd_set new (fd_lookup (child_fds c) old) (child_fds c),
                    child_trace := child_trace c @ [Sys_dup2 old new]\<rparr>))"

definition child_perror :: "string \<Rightarrow> child \<Rightarrow> child" where
  "child_perror prefix c = c\<lparr>child_stderr := child_stderr c @ [Perror prefix]\<rparr>"

text \<open>\<^verbatim>\<open>execvp\<close>: the flag says whether the child has taken on the program image.\<close>

definition child_execvp :: "env \<Rightarrow> string list \<Rightarrow> child \<Rightarrow> bool \<times> child" where
  "child_execvp e args c =
     (if exec_fails e args
      then (False, c\<lparr>child_trace := child_trace c @ [Sys_execvp args]\<rparr>)
      else (True, c\<lparr>child_trace := child_trace c @ [Sys_execvp args],
                    child_end := Some (Exec args)\<rparr>))"

definition child_exit :: "nat \<Rightarrow> child \<Rightarrow> child" where
  "child_exit n c =
     c\<lparr>child_trace := child_trace c @ [Sys_exit n], child_end := Some (Exit_status n)\<rparr>"

definition spawn :: "child \<Rightarrow> shell \<Rightarrow> shell" where
  "spawn c s = s\<lparr>children := children s @ [c]\<rparr>"

text \<open>The branch \<^verbatim>\<open>pid == 0\<close> of \<^verbatim>\<open>launch_process\<close>.\<close>

definition launch_child :: "env \<Rightarrow> string list \<Rightarrow> child \<Rightarrow> child" where
  "launch_child e args c =
     (let c1 = child_signal SIG_DFL c;
          x = child_execvp e args c1
      in if fst x then snd x else child_exit 1 (child_perror ''shell'' (snd x)))"

text \<open>The branches \<^verbatim>\<open>pid1 == 0\<close> and \<^verbatim>\<open>pid2 == 0\<close> of \<^verbatim>\<open>handle_pipe\<close>.\<close>

definition pipe_child1 :: "env \<Rightarrow> nat \<Rightarrow> nat \<Rightarrow> string list \<Rightarrow> child \<Rightarrow> child" where
  "pipe_child1 e rd wr command1 c =
     (let c1 = child_signal SIG_DFL c;
          c2 = child_close rd c1;
          d = child_dup2 e wr 1 c2
      in if \<not> fst d then child_exit 1 (child_perror ''dup2 failed for first command'' (snd d))
         else (let c3 = child_close wr (snd d);
                   x = child_execvp e command1 c3
               in if fst x then snd x else child_exit 1 (child_perror ''shell'' (snd x))))"

definition pipe_child2 :: "env \<Rightarrow> nat \<Rightarrow> nat \<Rightarrow> string list \<Rightarrow> child \<Rightarrow> child" where
  "pipe_child2 e rd wr command2 c =
     (let c1 = child_signal SIG_DFL c;
          c2 = child_close wr c1;
          d = child_dup2 e rd 0 c2
      in if \<not> fst d then child_exit 1 (child_perror ''dup2 failed for second command'' (snd d))
         else (let c3 = child_close rd (snd d);
                   x = child_execvp e command2 c3
               in if fst x then snd x else child_exit 1 (child_perror ''shell'' (snd x))))"

subsection \<open>Built-ins\<close>

text \<open>
  \<^verbatim>\<open>handle_builtin\<close> and \<^verbatim>\<open>launch_process\<close> read \<^verbatim>\<open>args[0]\<close> without a check, so the
  embedding gives them the first token \<open>arg0\<close> and the tokens after it.
\<close>

definition handle_builtin :: "env \<Rightarrow> string \<Rightarrow> string list \<Rightarrow> shell \<Rightarrow> int \<times> shell" where
  "handle_builtin e arg0 rest s =
     (if arg0 = ''exit'' then (0, s)
      else if arg0 = ''cd'' then
        (case rest of
           [] \<Rightarrow>
             (case HOME e of
                None \<Rightarrow>
                  (1, eprint (''shell: '' @ [CHR 0x27] @ ''cd'' @ [CHR 0x27]
                              @ '' requires an argument if HOME is not set.'' @ [CHR 0x0A]) s)
              | Some home_dir \<Rightarrow>
                  (let r = chdir e home_dir s
                   in if \<not> fst r then (1, perror ''shell'' (snd r)) else (1, snd r)))
         | arg1 # _ \<Rightarrow>
             (let r = chdir e arg1 s
              in if \<not> fst r then (1, perror ''shell'' (snd r)) else (1, snd r)))
      else (1, eprint (''shell: built-in command '' @ [CHR 0x27] @ arg0 @ [CHR 0x27]
                       @ '' not implemented.'' @ [CHR 0x0A]) s))"

subsection \<open>Launching a process\<close>

text \<open>
  The \<^verbatim>\<open>do ... while\<close> of \<^verbatim>\<open>launch_process\<close>. The result \<open>Some v\<close> is a \<^verbatim>\<open>return v\<close>
  inside the loop, \<open>None\<close> is the loop left by its condition. The loop need not end: the
  child may be stopped again and again, or \<^verbatim>\<open>waitpid\<close> may block for ever.
\<close>

partial_function (option) wait_loop :: "env \<Rightarrow> nat \<Rightarrow> shell \<Rightarrow> (int option \<times> shell) option" where
  "wait_loop e pid s =
     (case waitpid e pid WUNTRACED s of
        None \<Rightarrow> None
      | Some (r, s1) \<Rightarrow>
          (case r of
             Wait_status status \<Rightarrow>
               if \<not> WIFEXITED status \<and> \<not> WIFSIGNALED status then wait_loop e pid s1
               else Some (None, s1)
           | _ \<Rightarrow> Some (Some 1, perror ''waitpid failed'' s1)))"

declare wait_loop.simps [code]

definition launch_process :: "env \<Rightarrow> string \<Rightarrow> string list \<Rightarrow> shell \<Rightarrow> (int \<times> shell) option" where
  "launch_process e arg0 rest s =
     (case fork e s of
        (None, s1) \<Rightarrow> Some (1, perror ''fork failed'' s1)
      | (Some pid, s1) \<Rightarrow>
          (case wait_loop e pid (spawn (launch_child e (arg0 # rest) (forked pid s1)) s1) of
             None \<Rightarrow> None
           | Some (Some v, s2) \<Rightarrow> Some (v, s2)
           | Some (None, s2) \<Rightarrow> Some (1, s2)))"

subsection \<open>Dispatch\<close>

definition execute_command :: "env \<Rightarrow> string list \<Rightarrow> shell \<Rightarrow> (int \<times> shell) option" where
  "execute_command e args s =
     (case args of
        [] \<Rightarrow> Some (1, s)
      | arg0 # rest \<Rightarrow>
          if arg0 \<in> set builtin_commands then Some (handle_builtin e arg0 rest s)
          else launch_process e arg0 rest s)"

subsection \<open>Pipelines\<close>

definition handle_pipe :: "env \<Rightarrow> string list \<Rightarrow> string list \<Rightarrow> shell \<Rightarrow> (int \<times> shell) option" where
  "handle_pipe e command1 command2 s =
     (if command1 = [] \<or> command2 = []
      then Some (1, eprint (''shell: Invalid command usage with pipe.'' @ [CHR 0x0A]) s)
      else
        (case pipe e s of
           (None, s1) \<Rightarrow> Some (1, perror ''pipe failed'' s1)
         | (Some (rd, wr), s1) \<Rightarrow>
             (case fork e s1 of
                (None, s2) \<Rightarrow>
                  Some (1, close wr (close rd (perror ''fork failed for first command'' s2)))
              | (Some pid1, s2) \<Rightarrow>
                  (let s3 = spawn (pipe_child1 e rd wr command1 (forked pid1 s2)) s2 in
                   case fork e s3 of
                     (None, s4) \<Rightarrow>
                       (case waitpid e pid1 No_options
                               (kill pid1 (perror ''fork failed for second command'' s4)) of
                          None \<Rightarrow> None
                        | Some (_, s5) \<Rightarrow> Some (1, close wr (close rd s5)))
                   | (Some pid2, s4) \<Rightarrow>
                       (let s5 = spawn (pipe_child2 e rd wr command2 (forked pid2 s4)) s4;
                            s6 = close wr (close rd s5)
                        in case waitpid e pid1 No_options s6 of
                             None \<Rightarrow> None
                           | Some (_, s7) \<Rightarrow>
                               (case waitpid e pid2 No_options s7 of
                                  None \<Rightarrow> None
                                | Some (_, s8) \<Rightarrow> Some (1, s8)))))))"

subsection \<open>Parsing a line\<close>

text \<open>The search \<^verbatim>\<open>for (j = 0; args[j] != NULL; j++)\<close> for the first argument \<^verbatim>\<open>"|"\<close>.\<close>

fun find_pipe :: "string list \<Rightarrow> nat \<Rightarrow> nat option" where
  "find_pipe [] j = None"
| "find_pipe (a # as) j = (if a = ''|'' then Some j else find_pipe as (Suc j))"

text \<open>
  \<^verbatim>\<open>parse_line\<close>. The inner result is the argument vector, or \<open>None\<close> for \<^verbatim>\<open>NULL\<close>; the
  outer \<open>None\<close> is a call that does not return, which can only come from \<^verbatim>\<open>handle_pipe\<close>.
\<close>

definition parse_line :: "env \<Rightarrow> string \<Rightarrow> shell \<Rightarrow> (string list option \<times> shell) option" where
  "parse_line e line s =
     (let a1 = alloc e s in
      if \<not> fst a1 then Some (None, perror ''strdup failed in parse_line'' (snd a1))
      else
      (let a2 = alloc e (snd a1) in
       if \<not> fst a2 then Some (None, perror ''strdup failed in parse_line'' (snd a2))
       else
       (let pipe_present = (CHR ''|'' \<in> set line);
            a3 = alloc e (snd a2) in
        if \<not> fst a3 then Some (None, perror ''malloc failed in parse_line'' (snd a3))
        else
          (case tokenize_loop e (strtok line) [] (snd a3) of
             (None, s4) \<Rightarrow> Some (None, perror ''strdup failed during tokenization'' s4)
           | (Some (token, args), s4) \<Rightarrow>
               if token \<noteq> None \<and> length args \<ge> MAX_ARGS
               then Some (None, eprint (''shell: Too many arguments.'' @ [CHR 0x0A]) s4)
               else if pipe_present then
                 (case find_pipe args 0 of
                    Some pipe_index \<Rightarrow>
                      (case handle_pipe e (take pipe_index args)
                              (drop (pipe_index + 1) args) s4 of
                         None \<Rightarrow> None
                       | Some (_, s5) \<Rightarrow> Some (None, s5))
                  | None \<Rightarrow> Some (Some args, s4))
               else Some (Some args, s4)))))"

subsection \<open>The main loop\<close>

text \<open>
  How the \<^verbatim>\<open>do ... while (status)\<close> of \<^verbatim>\<open>main\<close> ends. \<^verbatim>\<open>status\<close> is declared without
  an initial value, so it is \<open>None\<close> until \<^verbatim>\<open>execute_command\<close> has been called once; a
  \<^verbatim>\<open>continue\<close> jumps to the test \<^verbatim>\<open>while (status)\<close>, and when that test reads a
  \<^verbatim>\<open>status\<close> that was never assigned the loop ends as \<open>Reads_unassigned_status\<close>.
\<close>

datatype loop_end = Loop_left | Reads_unassigned_status

function main_loop ::
  "env \<Rightarrow> int option \<Rightarrow> string \<Rightarrow> shell \<Rightarrow> (loop_end \<times> shell) option" where
  "main_loop e status input s =
     (let r = read_line e input (print ''> '' s) in
      case fst r of
        None \<Rightarrow> Some (Loop_left, snd r)
      | Some (line, rest) \<Rightarrow>
          (case parse_line e line (snd r) of
             None \<Rightarrow> None
           | Some (None, s1) \<Rightarrow>
               (case status of
                  None \<Rightarrow> Some (Reads_unassigned_status, s1)
                | Some v \<Rightarrow> if v \<noteq> 0 then main_loop e status rest s1 else Some (Loop_left, s1))
           | Some (Some args, s1) \<Rightarrow>
               (case execute_command e args s1 of
                  None \<Rightarrow> None
                | Some (v, s2) \<Rightarrow>
                    if v \<noteq> 0 then main_loop e (Some v) rest s2 else Some (Loop_left, s2))))"
  by pat_completeness auto

termination
proof -
  have chars: "length (snd (fgets_chars (Suc n) (c # cs))) < length (c # cs)" for n c cs
  proof (induction n arbitrary: c cs)
    case 0
    then show ?case by simp
  next
    case (Suc n)
    show ?case
    proof (cases cs)
      case Nil
      then show ?thesis by simp
    next
      case (Cons d ds)
      with Suc.IH [of d ds] show ?thesis by simp
    qed
  qed
  have shorter: "length rest < length input"
    if rl: "fst (read_line e input s) = Some (line, rest)" for e input s line rest
  proof -
    from rl obtain buffer where "fgets MAX_LINE_LENGTH input = Some (buffer, rest)"
      by (auto simp: read_line_def Let_def split: prod.splits if_splits option.splits)
    then have ne: "input \<noteq> []" and r: "rest = snd (fgets_chars 1023 input)"
      by (auto simp: fgets_def MAX_LINE_LENGTH_def split: if_splits)
    from ne obtain c cs where i: "input = c # cs" by (cases input) auto
    have "length (snd (fgets_chars (Suc 1022) (c # cs))) < length (c # cs)"
      by (rule chars)
    then show ?thesis using r i by simp
  qed
  show ?thesis
    by (relation "measure (\<lambda>(e, status, input, s). length input)")
       (auto dest: shorter)
qed

declare main_loop.simps [simp del]

text \<open>
  \<^verbatim>\<open>main\<close> on the standard input \<open>input\<close>. \<open>Some 0\<close> is \<^verbatim>\<open>return 0\<close>; \<open>None\<close> is a run
  whose loop test read the unassigned \<^verbatim>\<open>status\<close>, after which C promises nothing.
\<close>

definition main :: "env \<Rightarrow> string \<Rightarrow> shell \<Rightarrow> (int option \<times> shell) option" where
  "main e input s =
     (case main_loop e None input (signal SIG_IGN s) of
        None \<Rightarrow> None
      | Some (Loop_left, s1) \<Rightarrow>
          Some (Some 0, print (''Exiting simple shell...'' @ [CHR 0x0A]) s1)
      | Some (Reads_unassigned_status, s1) \<Rightarrow> Some (None, s1))"

section \<open>Notions the claims are stated with\<close>

subsection \<open>The tokens of a line\<close>

text \<open>
  The tokens of a line are what repeated calls of \<^verbatim>\<open>strtok\<close> yield until it returns
  \<^verbatim>\<open>NULL\<close>. The claims speak of the tokens of a line; the lemmas below relate the loop
  of \<^verbatim>\<open>parse_line\<close>, which stops at \<^verbatim>\<open>MAX_ARGS\<close>, to this sequence.
\<close>

function tokens :: "string \<Rightarrow> string list" where
  "tokens cs = (case strtok cs of None \<Rightarrow> [] | Some (t, rest) \<Rightarrow> t # tokens rest)"
  by pat_completeness auto

termination
proof -
  have shorter: "length r < length cs" if tok: "strtok cs = Some (u, r)" for cs u r
  proof -
    define start where "start = dropWhile is_delim cs"
    from tok have ne: "start \<noteq> []"
      and r: "r = drop 1 (dropWhile (\<lambda>c. \<not> is_delim c) start)"
      by (auto simp: strtok_def start_def Let_def split: if_splits)
    have le: "length (dropWhile (\<lambda>c. \<not> is_delim c) start) \<le> length start"
      by (rule length_dropWhile_le)
    have "length start \<le> length cs"
      unfolding start_def by (rule length_dropWhile_le)
    moreover from ne le have "length r < length start"
      unfolding r by (cases start) auto
    ultimately show ?thesis by simp
  qed
  show ?thesis
    by (relation "measure length") (auto dest: shorter)
qed

declare tokens.simps [simp del]

text \<open>The tokens still to come when the loop of \<^verbatim>\<open>parse_line\<close> holds \<open>token\<close>.\<close>

definition pending :: "(string \<times> string) option \<Rightarrow> string list" where
  "pending token = (case token of None \<Rightarrow> [] | Some (t, rest) \<Rightarrow> t # tokens rest)"


subsection \<open>Messages\<close>

definition too_many :: string where
  "too_many = ''shell: Too many arguments.'' @ [CHR 0x0A]"

definition usage :: string where
  "usage = ''shell: Invalid command usage with pipe.'' @ [CHR 0x0A]"

definition no_home :: string where
  "no_home = ''shell: '' @ [CHR 0x27] @ ''cd'' @ [CHR 0x27]
             @ '' requires an argument if HOME is not set.'' @ [CHR 0x0A]"

subsection \<open>Signals and children\<close>




text \<open>
  From \<open>s\<close> to \<open>s'\<close> nothing was spawned: the same children, system calls, descriptors,
  directory and disposition; only the error stream and the count of allocations may
  differ.
\<close>

definition spawns_nothing :: "shell \<Rightarrow> shell \<Rightarrow> bool" where
  "spawns_nothing s s' =
     (children s' = children s \<and> trace s' = trace s \<and> fdtab s' = fdtab s \<and>
      n_fork s' = n_fork s \<and> n_pipe s' = n_pipe s \<and> n_wait s' = n_wait s \<and>
      cwd s' = cwd s \<and> sigint s' = sigint s \<and> stdout_log s' = stdout_log s)"

subsection \<open>Waiting\<close>

text \<open>
  What a result of \<^verbatim>\<open>waitpid\<close> means to the loop of \<^verbatim>\<open>launch_process\<close>, and the state
  after \<open>m\<close> calls of \<^verbatim>\<open>waitpid(pid, &status, WUNTRACED)\<close> that returned.
\<close>

fun is_stopped :: "wait_result \<Rightarrow> bool" where
  "is_stopped (Wait_status st) = (\<not> WIFEXITED st \<and> \<not> WIFSIGNALED st)"
| "is_stopped _ = False"

fun is_terminated :: "wait_result \<Rightarrow> bool" where
  "is_terminated (Wait_status st) = (WIFEXITED st \<or> WIFSIGNALED st)"
| "is_terminated _ = False"

definition waited :: "nat \<Rightarrow> nat \<Rightarrow> shell \<Rightarrow> shell" where
  "waited m pid s =
     s\<lparr>n_wait := n_wait s + m, trace := trace s @ replicate m (Sys_waitpid pid WUNTRACED)\<rparr>"

text \<open>
  \<open>wait_settles n e k\<close>: from the \<open>k\<close>-th call on, \<^verbatim>\<open>waitpid\<close> reports stops only until,
  within \<open>n\<close> calls, it fails or reports the child exited or killed.
\<close>

fun wait_settles :: "nat \<Rightarrow> env \<Rightarrow> nat \<Rightarrow> bool" where
  "wait_settles 0 e k = False"
| "wait_settles (Suc n) e k =
     (waitpid_res e k = Wait_failed \<or> is_terminated (waitpid_res e k) \<or>
      is_stopped (waitpid_res e k) \<and> wait_settles n e (Suc k))"

text \<open>The last \<^verbatim>\<open>waitpid\<close> made between \<open>s\<close> and \<open>s'\<close> reported the child exited or killed.\<close>

definition last_wait_terminated :: "env \<Rightarrow> shell \<Rightarrow> shell \<Rightarrow> bool" where
  "last_wait_terminated e s s' =
     (n_wait s < n_wait s' \<and> is_terminated (waitpid_res e (n_wait s' - 1)))"

subsection \<open>The descriptors of a new channel\<close>



section \<open>Concrete environments, states and inputs\<close>

text \<open>
  An environment in which nothing fails and every child has exited by the first
  \<^verbatim>\<open>waitpid\<close>, and the state of a shell started on a terminal.
\<close>

definition env_ok :: env where
  "env_ok = \<lparr>alloc_fails = (\<lambda>k. False), fork_fails = (\<lambda>k. False), pipe_fails = (\<lambda>k. False),
     waitpid_res = (\<lambda>k. Wait_status (Exited 0)),
     chdir_res = (\<lambda>d p. if p = ''/nonexistent-path'' then None else Some p),
     HOME = Some ''/home/user'', dup2_fails = (\<lambda>k. False), exec_fails = (\<lambda>a. False)\<rparr>"

definition shell0 :: shell where
  "shell0 = \<lparr>cwd = ''/'', sigint = SIG_DFL, fdtab = [Some Terminal, Some Terminal, Some Terminal],
     stdout_log = [], stderr_log = [], children = [], trace = [], n_alloc = 0, n_fork = 0,
     n_pipe = 0, n_wait = 0\<rparr>"

text \<open>Environments in which \<^verbatim>\<open>waitpid\<close> fails, and in which the child is stopped once and then killed.\<close>

definition env_wait_fails :: env where
  "env_wait_fails = env_ok\<lparr>waitpid_res := \<lambda>k. Wait_failed\<rparr>"

definition env_stopped_once :: env where
  "env_stopped_once =
     env_ok\<lparr>waitpid_res := \<lambda>k. if k = 0 then Wait_status (Stopped 19)
                                else Wait_status (Signaled 9)\<rparr>"

text \<open>The shell after \<^verbatim>\<open>launch_process\<close> has forked its first child for \<open>args\<close>.\<close>

definition launched :: "string list \<Rightarrow> shell" where
  "launched args =
     shell0\<lparr>children :=
              [\<lparr>child_pid = 1, child_sigint = SIG_DFL,
                child_fds = [Some Terminal, Some Terminal, Some Terminal], child_stderr = [],
                child_trace = [Sys_signal SIG_DFL, Sys_execvp args],
                child_end = Some (Exec args)\<rparr>],
            n_fork := 1\<rparr>"




text \<open>A line of 65 tokens, a line of 64 tokens and a pipe token, and a session that begins with a pipeline.\<close>

definition long_line :: string where
  "long_line = concat (replicate 65 ''a '')"



section \<open>The loop of \<^verbatim>\<open>parse_line\<close> and the tokens\<close>

lemma pending_strtok: "pending (strtok cs) = tokens cs"
  by (subst tokens.simps) (simp add: pending_def split: option.splits)

lemma pending_None: "pending None = []"
  by (simp add: pending_def)

lemma pending_Some: "pending (Some (t, rest)) = t # pending (strtok rest)"
  by (simp add: pending_strtok) (simp add: pending_def)

lemma tokenize_loop_result:
  assumes "tokenize_loop e token args s = (r, s')" and "length args \<le> MAX_ARGS"
  shows "(\<exists>n. s' = s\<lparr>n_alloc := n\<rparr>) \<and>
         (\<forall>token' args'. r = Some (token', args') \<longrightarrow>
            args' = args @ take (MAX_ARGS - length args) (pending token) \<and>
            (token' \<noteq> None \<and> MAX_ARGS \<le> length args'
               \<longleftrightarrow> MAX_ARGS < length args + length (pending token)))"
  using assms
proof (induction e token args s arbitrary: r s' rule: tokenize_loop.induct)
  case (1 e token args s)
  show ?case
  proof (cases token)
    case None
    with "1.prems" show ?thesis
      by (auto simp: tokenize_loop.simps pending_None intro: exI [of _ "n_alloc s"])
  next
    case (Some p)
    obtain t rest where p: "p = (t, rest)" by (cases p)
    show ?thesis
    proof (cases "length args < MAX_ARGS")
      case False
      with "1.prems" Some p show ?thesis
        by (auto simp: tokenize_loop.simps pending_Some intro: exI [of _ "n_alloc s"])
    next
      case True
      show ?thesis
      proof (cases "fst (alloc e s)")
        case False
        with "1.prems" Some p True show ?thesis
          by (auto simp: tokenize_loop.simps [of e "Some (t, rest)"] alloc_def)
      next
        case ok: True
        from "1.prems" Some p True ok
        have rec: "tokenize_loop e (strtok rest) (args @ [t]) (snd (alloc e s)) = (r, s')"
          by (simp add: tokenize_loop.simps [of e "Some (t, rest)"])
        from True have len: "length (args @ [t]) \<le> MAX_ARGS" by simp
        from "1.IH" [OF Some p [symmetric] True _ rec len] ok
        have ih: "(\<exists>n. s' = snd (alloc e s)\<lparr>n_alloc := n\<rparr>) \<and>
           (\<forall>token' args'. r = Some (token', args') \<longrightarrow>
              args' = (args @ [t]) @ take (MAX_ARGS - length (args @ [t])) (pending (strtok rest)) \<and>
              (token' \<noteq> None \<and> MAX_ARGS \<le> length args'
                 \<longleftrightarrow> MAX_ARGS < length (args @ [t]) + length (pending (strtok rest))))"
          by simp
        from ih have "\<exists>n. s' = s\<lparr>n_alloc := n\<rparr>"
          by (auto simp: alloc_def)
        moreover have "take (MAX_ARGS - length args) (pending token)
            = t # take (MAX_ARGS - length (args @ [t])) (pending (strtok rest))"
        proof -
          from True obtain k where k: "MAX_ARGS - length args = Suc k"
            by (cases "MAX_ARGS - length args") auto
          then have "MAX_ARGS - length (args @ [t]) = k" by simp
          with k Some p show ?thesis by (simp add: pending_Some)
        qed
        ultimately show ?thesis using ih Some p
          by (simp add: pending_Some)
      qed
    qed
  qed
qed

lemma tokenize_loop_allocs:
  assumes "\<forall>k. \<not> alloc_fails e k" and "length args \<le> MAX_ARGS"
  shows "fst (tokenize_loop e token args s) \<noteq> None \<and>
         n_alloc (snd (tokenize_loop e token args s))
           = n_alloc s + min (MAX_ARGS - length args) (length (pending token))"
  using assms
proof (induction e token args s rule: tokenize_loop.induct)
  case (1 e token args s)
  show ?case
  proof (cases token)
    case None
    then show ?thesis by (simp add: tokenize_loop.simps pending_None)
  next
    case (Some p)
    obtain t rest where p: "p = (t, rest)" by (cases p)
    show ?thesis
    proof (cases "length args < MAX_ARGS")
      case False
      with Some p "1.prems" show ?thesis by (simp add: tokenize_loop.simps)
    next
      case True
      from "1.prems" have ok: "fst (alloc e s)" by (simp add: alloc_def)
      from True have len: "length (args @ [t]) \<le> MAX_ARGS" by simp
      from True obtain k where k: "MAX_ARGS - length args = Suc k"
        by (cases "MAX_ARGS - length args") auto
      then have k': "MAX_ARGS - length (args @ [t]) = k" by simp
      from "1.IH" [OF Some p [symmetric] True _ "1.prems"(1) len] ok
      have "fst (tokenize_loop e (strtok rest) (args @ [t]) (snd (alloc e s))) \<noteq> None \<and>
            n_alloc (snd (tokenize_loop e (strtok rest) (args @ [t]) (snd (alloc e s))))
              = n_alloc (snd (alloc e s))
                + min (MAX_ARGS - length (args @ [t])) (length (pending (strtok rest)))"
        by simp
      with Some p True ok k k' show ?thesis
        by (simp add: tokenize_loop.simps [of e "Some (t, rest)"] pending_Some alloc_def)
    qed
  qed
qed

lemma strtok_set:
  assumes "strtok cs = Some (t, rest)"
  shows "set t \<subseteq> set cs \<and> set rest \<subseteq> set cs"
proof -
  from assms have t: "t = takeWhile (\<lambda>c. \<not> is_delim c) (dropWhile is_delim cs)"
    and r: "rest = drop 1 (dropWhile (\<lambda>c. \<not> is_delim c) (dropWhile is_delim cs))"
    by (auto simp: strtok_def Let_def split: if_splits)
  have "set t \<subseteq> set cs"
    unfolding t by (meson set_takeWhileD set_dropWhileD subsetI)
  moreover have "set rest \<subseteq> set cs"
    unfolding r by (meson set_dropWhileD in_set_dropD subsetI)
  ultimately show ?thesis ..
qed

lemma tokens_set: "t \<in> set (tokens cs) \<Longrightarrow> set t \<subseteq> set cs"
proof (induction cs rule: tokens.induct)
  case (1 cs)
  show ?case
  proof (cases "strtok cs")
    case None
    with "1.prems" show ?thesis by (subst (asm) tokens.simps) simp
  next
    case (Some p)
    obtain u rest where p: "p = (u, rest)" by (cases p)
    from "1.prems" Some p have "t = u \<or> t \<in> set (tokens rest)"
      by (subst (asm) tokens.simps) simp
    then show ?thesis
    proof
      assume "t = u"
      with strtok_set Some p show ?thesis by blast
    next
      assume "t \<in> set (tokens rest)"
      with "1.IH" [OF Some p [symmetric]] have "set t \<subseteq> set rest" by simp
      with strtok_set Some p show ?thesis by blast
    qed
  qed
qed


lemma find_pipe_None: "find_pipe args j = None \<longleftrightarrow> ''|'' \<notin> set args"
  by (induction args arbitrary: j) auto

lemma pipe_token_in_line: "''|'' \<in> set (tokens line) \<Longrightarrow> CHR ''|'' \<in> set line"
  using tokens_set [of "''|''" line] by auto

lemma parse_line_allocs:
  assumes "\<forall>k. \<not> alloc_fails e k"
  shows "parse_line e line s =
     (if MAX_ARGS < length (tokens line)
      then Some (None, eprint too_many (s\<lparr>n_alloc := n_alloc s + 3 + MAX_ARGS\<rparr>))
      else (case find_pipe (tokens line) 0 of
              None \<Rightarrow> Some (Some (tokens line), s\<lparr>n_alloc := n_alloc s + 3 + length (tokens line)\<rparr>)
            | Some j \<Rightarrow>
                (case handle_pipe e (take j (tokens line)) (drop (j + 1) (tokens line))
                        (s\<lparr>n_alloc := n_alloc s + 3 + length (tokens line)\<rparr>) of
                   None \<Rightarrow> None
                 | Some (v, s') \<Rightarrow> Some (None, s'))))"
proof -
  define s3 where "s3 = snd (alloc e (snd (alloc e (snd (alloc e s)))))"
  have s3: "s3 = s\<lparr>n_alloc := n_alloc s + 3\<rparr>"
    by (simp add: s3_def alloc_def)
  obtain r s4 where tl: "tokenize_loop e (strtok line) [] s3 = (r, s4)"
    by (cases "tokenize_loop e (strtok line) [] s3")
  from tokenize_loop_allocs [OF assms, of "[]" "strtok line" s3] tl
  have r: "r \<noteq> None" and n: "n_alloc s4 = n_alloc s3 + min MAX_ARGS (length (tokens line))"
    by (simp_all add: pending_strtok)
  from r obtain token args where ra: "r = Some (token, args)" by (cases r) auto
  have "(\<exists>n. s4 = s3\<lparr>n_alloc := n\<rparr>) \<and>
         (\<forall>token' args'. r = Some (token', args') \<longrightarrow>
            args' = [] @ take (MAX_ARGS - length ([]::string list)) (pending (strtok line)) \<and>
            (token' \<noteq> None \<and> MAX_ARGS \<le> length args'
               \<longleftrightarrow> MAX_ARGS < length ([]::string list) + length (pending (strtok line))))"
    by (rule tokenize_loop_result [OF tl]) simp
  then have raw: "(\<exists>n. s4 = s3\<lparr>n_alloc := n\<rparr>) \<and>
         (\<forall>token' args'. r = Some (token', args') \<longrightarrow>
            args' = take MAX_ARGS (tokens line) \<and>
            (token' \<noteq> None \<and> MAX_ARGS \<le> length args' \<longleftrightarrow> MAX_ARGS < length (tokens line)))"
    by (simp add: pending_strtok)
  from raw have s4: "\<exists>n. s4 = s3\<lparr>n_alloc := n\<rparr>" by blast
  from raw ra have args: "args = take MAX_ARGS (tokens line)" by blast
  from raw ra have over: "token \<noteq> None \<and> MAX_ARGS \<le> length args \<longleftrightarrow> MAX_ARGS < length (tokens line)"
    by blast
  from s4 n have s4': "s4 = s\<lparr>n_alloc := n_alloc s + 3 + min MAX_ARGS (length (tokens line))\<rparr>"
    by (auto simp: s3)
  have "parse_line e line s =
      (if token \<noteq> None \<and> MAX_ARGS \<le> length args
       then Some (None, eprint too_many s4)
       else if CHR ''|'' \<in> set line then
         (case find_pipe args 0 of
            Some pipe_index \<Rightarrow>
              (case handle_pipe e (take pipe_index args) (drop (pipe_index + 1) args) s4 of
                 None \<Rightarrow> None
               | Some (_, s5) \<Rightarrow> Some (None, s5))
          | None \<Rightarrow> Some (Some args, s4))
       else Some (Some args, s4))"
    using assms tl ra
    by (simp add: parse_line_def Let_def s3_def [symmetric] too_many_def)
       (simp add: alloc_def)
  then have pl: "parse_line e line s =
      (if MAX_ARGS < length (tokens line)
       then Some (None, eprint too_many s4)
       else if CHR ''|'' \<in> set line then
         (case find_pipe args 0 of
            Some pipe_index \<Rightarrow>
              (case handle_pipe e (take pipe_index args) (drop (pipe_index + 1) args) s4 of
                 None \<Rightarrow> None
               | Some (_, s5) \<Rightarrow> Some (None, s5))
          | None \<Rightarrow> Some (Some args, s4))
       else Some (Some args, s4))"
    unfolding over .
  show ?thesis
  proof (cases "MAX_ARGS < length (tokens line)")
    case True
    with pl s4' show ?thesis by (simp add: min_def)
  next
    case False
    then have a: "args = tokens line" using args by simp
    from False have m: "min MAX_ARGS (length (tokens line)) = length (tokens line)" by simp
    show ?thesis
    proof (cases "find_pipe (tokens line) 0")
      case None
      with pl False a s4' m show ?thesis by simp
    next
      case (Some j)
      then have "''|'' \<in> set (tokens line)"
        using find_pipe_None [of "tokens line" 0] by auto
      then have "CHR ''|'' \<in> set line" by (rule pipe_token_in_line)
      with pl False a s4' m Some show ?thesis by simp
    qed
  qed
qed

section \<open>Descriptors\<close>









section \<open>Signals: what each operation keeps\<close>








lemma handle_pipe_rejects:
  "c1 = [] \<or> c2 = [] \<Longrightarrow> handle_pipe e c1 c2 s = Some (1, eprint usage s)"
  by (simp add: handle_pipe_def usage_def)

section \<open>The wait loop\<close>

lemma waited_0: "waited 0 pid s = s"
  by (simp add: waited_def)

lemma n_wait_waited: "n_wait (waited m pid s) = n_wait s + m"
  by (simp add: waited_def)

lemma waited_waited: "waited m pid (waited k pid s) = waited (k + m) pid s"
  by (simp add: waited_def replicate_add)

lemma wait_loop_stopped:
  "is_stopped (waitpid_res e (n_wait s)) \<Longrightarrow> wait_loop e pid s = wait_loop e pid (waited 1 pid s)"
  by (subst wait_loop.simps, cases "waitpid_res e (n_wait s)")
     (auto simp: waitpid_def waited_def sys_def)

lemma wait_loop_terminated:
  "is_terminated (waitpid_res e (n_wait s)) \<Longrightarrow> wait_loop e pid s = Some (None, waited 1 pid s)"
  by (subst wait_loop.simps, cases "waitpid_res e (n_wait s)")
     (auto simp: waitpid_def waited_def sys_def)

lemma wait_loop_failed:
  "waitpid_res e (n_wait s) = Wait_failed \<Longrightarrow>
     wait_loop e pid s = Some (Some 1, perror ''waitpid failed'' (waited 1 pid s))"
  by (subst wait_loop.simps) (auto simp: waitpid_def waited_def sys_def)

lemma wait_loop_blocks:
  "waitpid_res e (n_wait s) = Wait_blocks \<Longrightarrow> wait_loop e pid s = None"
  by (subst wait_loop.simps) (auto simp: waitpid_def)

lemma wait_result_cases:
  "r = Wait_blocks \<or> r = Wait_failed \<or> is_stopped r \<or> is_terminated r"
  by (cases r) auto

lemma wait_loop_skips:
  "(\<forall>j<m. is_stopped (waitpid_res e (n_wait s + j))) \<Longrightarrow>
     wait_loop e pid s = wait_loop e pid (waited m pid s)"
proof (induction m arbitrary: s)
  case 0
  then show ?case by (simp add: waited_0)
next
  case (Suc m)
  from Suc.prems have st: "is_stopped (waitpid_res e (n_wait s))"
    by (metis add.right_neutral zero_less_Suc)
  have "\<forall>j<m. is_stopped (waitpid_res e (n_wait (waited 1 pid s) + j))"
  proof (intro allI impI)
    fix j assume "j < m"
    then have "Suc j < Suc m" by simp
    with Suc.prems have "is_stopped (waitpid_res e (n_wait s + Suc j))" by blast
    then show "is_stopped (waitpid_res e (n_wait (waited 1 pid s) + j))"
      by (simp add: waited_def)
  qed
  from Suc.IH [OF this] have "wait_loop e pid (waited 1 pid s) = wait_loop e pid (waited (Suc m) pid s)"
    by (simp add: waited_waited)
  with wait_loop_stopped [OF st] show ?case by simp
qed

lemma wait_loop_Some_aux:
  assumes "wait_loop e pid s = Some y"
  shows "\<exists>m. (\<forall>j<m. is_stopped (waitpid_res e (n_wait s + j))) \<and>
           (is_terminated (waitpid_res e (n_wait s + m)) \<and> y = (None, waited (Suc m) pid s)
            \<or> waitpid_res e (n_wait s + m) = Wait_failed
              \<and> y = (Some 1, perror ''waitpid failed'' (waited (Suc m) pid s)))"
proof -
  define Q where "Q = (\<lambda>(e :: env) pid s (y :: int option \<times> shell).
      \<exists>m. (\<forall>j<m. is_stopped (waitpid_res e (n_wait s + j))) \<and>
           (is_terminated (waitpid_res e (n_wait s + m)) \<and> y = (None, waited (Suc m) pid s)
            \<or> waitpid_res e (n_wait s + m) = Wait_failed
              \<and> y = (Some 1, perror ''waitpid failed'' (waited (Suc m) pid s))))"
  have step: "Q e pid s y"
    if ih: "\<And>(e :: env) pid s y. loop e pid s = Some y \<Longrightarrow> Q e pid s y"
    and eq: "(case waitpid e pid WUNTRACED s of None \<Rightarrow> None
      | Some (Wait_status status, s1) \<Rightarrow>
          if \<not> WIFEXITED status \<and> \<not> WIFSIGNALED status
          then loop e pid s1 else Some (None, s1)
      | Some (_, s1) \<Rightarrow> Some (Some 1, perror ''waitpid failed'' s1)) = Some y"
    for loop and e :: env and pid s y
  proof -
    from wait_result_cases [of "waitpid_res e (n_wait s)"] show ?thesis
    proof (elim disjE)
      assume "waitpid_res e (n_wait s) = Wait_blocks"
      with eq show ?thesis by (simp add: waitpid_def)
    next
      assume f: "waitpid_res e (n_wait s) = Wait_failed"
      with eq have "y = (Some 1, perror ''waitpid failed'' (waited 1 pid s))"
        by (auto simp: waitpid_def waited_def sys_def)
      with f show ?thesis unfolding Q_def by (intro exI [of _ 0]) simp
    next
      assume t: "is_terminated (waitpid_res e (n_wait s))"
      with eq have "y = (None, waited 1 pid s)"
        by (cases "waitpid_res e (n_wait s)") (auto simp: waitpid_def waited_def sys_def)
      with t show ?thesis unfolding Q_def by (intro exI [of _ 0]) simp
    next
      assume st: "is_stopped (waitpid_res e (n_wait s))"
      with eq have "loop e pid (waited 1 pid s) = Some y"
        by (cases "waitpid_res e (n_wait s)") (auto simp: waitpid_def waited_def sys_def)
      from ih [OF this] obtain m where
        m: "\<forall>j<m. is_stopped (waitpid_res e (n_wait (waited 1 pid s) + j))"
           "is_terminated (waitpid_res e (n_wait (waited 1 pid s) + m))
              \<and> y = (None, waited (Suc m) pid (waited 1 pid s))
            \<or> waitpid_res e (n_wait (waited 1 pid s) + m) = Wait_failed
              \<and> y = (Some 1, perror ''waitpid failed'' (waited (Suc m) pid (waited 1 pid s)))"
        unfolding Q_def by blast
      have nw: "\<And>j. n_wait (waited 1 pid s) + j = n_wait s + Suc j"
        by (simp add: waited_def)
      have "\<forall>j<Suc m. is_stopped (waitpid_res e (n_wait s + j))"
      proof (intro allI impI)
        fix j assume j: "j < Suc m"
        show "is_stopped (waitpid_res e (n_wait s + j))"
        proof (cases j)
          case 0
          with st show ?thesis by simp
        next
          case (Suc i)
          with j m(1) nw show ?thesis by auto
        qed
      qed
      moreover from m(2) have "is_terminated (waitpid_res e (n_wait s + Suc m))
              \<and> y = (None, waited (Suc (Suc m)) pid s)
            \<or> waitpid_res e (n_wait s + Suc m) = Wait_failed
              \<and> y = (Some 1, perror ''waitpid failed'' (waited (Suc (Suc m)) pid s))"
        by (simp add: n_wait_waited waited_waited)
      ultimately show ?thesis unfolding Q_def by blast
    qed
  qed
  have "Q e pid s y"
    by (rule wait_loop.raw_induct [where P = Q, OF step assms])
  then show ?thesis unfolding Q_def .
qed








lemma launch_process_value:
  assumes "launch_process e arg0 rest s = Some (v, s')"
  shows "v = 1"
proof (cases "fork_fails e (n_fork s)")
  case True
  with assms show ?thesis by (auto simp: launch_process_def fork_def)
next
  case False
  show ?thesis
  proof (cases "wait_loop e (Suc (n_fork s))
      (spawn (launch_child e (arg0 # rest) (forked (Suc (n_fork s)) (snd (fork e s)))) (snd (fork e s)))")
    case None
    with False assms show ?thesis by (simp add: launch_process_def fork_def)
  next
    case (Some y)
    from wait_loop_Some_aux [OF Some] have "fst y = None \<or> fst y = Some 1" by auto
    with False assms Some show ?thesis
      by (cases y) (auto simp: launch_process_def fork_def)
  qed
qed








section \<open>When \<^verbatim>\<open>launch_process\<close> returns\<close>

lemma wait_settles_returns:
  "wait_settles n e (n_wait s) \<Longrightarrow> wait_loop e pid s \<noteq> None"
proof (induction n arbitrary: s)
  case 0
  then show ?case by simp
next
  case (Suc n)
  from Suc.prems consider "waitpid_res e (n_wait s) = Wait_failed"
    | "is_terminated (waitpid_res e (n_wait s))"
    | "is_stopped (waitpid_res e (n_wait s))" "wait_settles n e (Suc (n_wait s))"
    by auto
  then show ?case
  proof cases
    case 1
    then show ?thesis by (simp add: wait_loop_failed)
  next
    case 2
    then show ?thesis by (simp add: wait_loop_terminated)
  next
    case 3
    from 3(2) have "wait_settles n e (n_wait (waited 1 pid s))"
      by (simp add: n_wait_waited)
    from Suc.IH [OF this] wait_loop_stopped [OF 3(1)] show ?thesis by simp
  qed
qed

lemma launch_process_returns:
  assumes "fork_fails e (n_fork s) \<or> wait_settles n e (n_wait s)"
  shows "launch_process e arg0 rest s \<noteq> None"
proof (cases "fork_fails e (n_fork s)")
  case True
  then show ?thesis by (simp add: launch_process_def fork_def)
next
  case False
  let ?s1 = "spawn (launch_child e (arg0 # rest) (forked (Suc (n_fork s)) (snd (fork e s)))) (snd (fork e s))"
  from False assms have "wait_settles n e (n_wait ?s1)"
    by (simp add: spawn_def fork_def sys_def)
  then have "wait_loop e (Suc (n_fork s)) ?s1 \<noteq> None" by (rule wait_settles_returns)
  with False show ?thesis
    by (auto simp: launch_process_def fork_def split: option.splits)
qed

section \<open>Running the model on concrete input\<close>

lemma main_loop_eof:
  assumes "fst (read_line e input (print ''> '' s)) = None"
  shows "main_loop e status input s = Some (Loop_left, snd (read_line e input (print ''> '' s)))"
  using assms by (subst main_loop.simps) (simp add: Let_def)

lemma main_loop_parse_NULL:
  assumes "read_line e input (print ''> '' s) = (Some (line, rest), s0)"
    and "parse_line e line s0 = Some (None, s1)"
  shows "main_loop e status input s =
     (case status of
        None \<Rightarrow> Some (Reads_unassigned_status, s1)
      | Some v \<Rightarrow> if v \<noteq> 0 then main_loop e status rest s1 else Some (Loop_left, s1))"
  using assms by (subst main_loop.simps) (simp add: Let_def)

lemma main_loop_command:
  assumes "read_line e input (print ''> '' s) = (Some (line, rest), s0)"
    and "parse_line e line s0 = Some (Some args, s1)"
    and "execute_command e args s1 = Some (v, s2)"
  shows "main_loop e status input s =
     (if v \<noteq> 0 then main_loop e (Some v) rest s2 else Some (Loop_left, s2))"
  using assms by (subst main_loop.simps) (simp add: Let_def)


lemmas token_defs = tokens.simps strtok_def is_delim_def TOKEN_DELIMITERS_def

lemma env_ok_simps:
  "alloc_fails env_ok k = False" "fork_fails env_ok k = False" "pipe_fails env_ok k = False"
  "waitpid_res env_ok k = Wait_status (Exited 0)"
  "chdir_res env_ok d p = (if p = ''/nonexistent-path'' then None else Some p)"
  "HOME env_ok = Some ''/home/user''" "dup2_fails env_ok k = False" "exec_fails env_ok a = False"
  by (simp_all add: env_ok_def)

lemma env_ok_allocs: "\<forall>k. \<not> alloc_fails env_ok k"
  by (simp add: env_ok_def)



lemmas child_defs =
  forked_def launch_child_def pipe_child1_def pipe_child2_def child_signal_def child_close_def
  child_dup2_def child_execvp_def child_exit_def child_perror_def fd_lookup_def fd_close_def
  fd_set_def Let_def


section \<open>Pipelines\<close>





lemma empty_half_tokens:
  "tokens ''| ls'' = [''|'', ''ls'']" "tokens ''ls |'' = [''ls'', ''|'']"
  by (simp_all add: token_defs)

lemma launch_process_forked:
  assumes "\<not> fork_fails e (n_fork s)"
  shows "launch_process e arg0 rest s =
     (case wait_loop e (Suc (n_fork s))
             (s\<lparr>children := children s @ [launch_child e (arg0 # rest) (forked (Suc (n_fork s)) s)],
                trace := trace s @ [Sys_fork (Suc (n_fork s))],
                n_fork := Suc (n_fork s)\<rparr>) of
        None \<Rightarrow> None
      | Some (r, s2) \<Rightarrow> Some (1, s2))"
proof -
  let ?s1 = "s\<lparr>children := children s @ [launch_child e (arg0 # rest) (forked (Suc (n_fork s)) s)],
                trace := trace s @ [Sys_fork (Suc (n_fork s))], n_fork := Suc (n_fork s)\<rparr>"
  have f: "forked (Suc (n_fork s)) (snd (fork e s)) = forked (Suc (n_fork s)) s"
    using assms by (simp add: forked_def fork_def sys_def)
  have s1: "spawn (launch_child e (arg0 # rest) (forked (Suc (n_fork s)) (snd (fork e s)))) (snd (fork e s)) = ?s1"
    unfolding f using assms by (simp add: spawn_def fork_def sys_def)
  show ?thesis
  proof (cases "wait_loop e (Suc (n_fork s)) ?s1")
    case None
    with assms s1 show ?thesis by (simp add: launch_process_def fork_def)
  next
    case (Some y)
    from wait_loop_Some_aux [OF Some] have "fst y = None \<or> fst y = Some 1" by auto
    with assms s1 Some show ?thesis
      by (cases y) (auto simp: launch_process_def fork_def)
  qed
qed

lemma env_wait_fails_simps:
  "fork_fails env_wait_fails k = False" "waitpid_res env_wait_fails k = Wait_failed"
  "exec_fails env_wait_fails a = False"
  by (simp_all add: env_wait_fails_def env_ok_def)

lemma env_stopped_once_simps:
  "fork_fails env_stopped_once k = False"
  "waitpid_res env_stopped_once k
     = (if k = 0 then Wait_status (Stopped 19) else Wait_status (Signaled 9))"
  "exec_fails env_stopped_once a = False"
  by (simp_all add: env_stopped_once_def env_ok_def)

lemma launch_wait_fails:
  "launch_process env_wait_fails ''ls'' [] shell0
     = Some (1, (launched [''ls''])\<lparr>stderr_log := [Perror ''waitpid failed''],
                                     trace := [Sys_fork 1, Sys_waitpid 1 WUNTRACED],
                                     n_wait := 1\<rparr>)"
  apply (simp add: launch_process_forked env_wait_fails_simps)
  apply (simp add: wait_loop_failed env_wait_fails_simps)
  apply (simp add: waited_def perror_def child_defs env_wait_fails_simps launched_def shell0_def)
  done

lemma launch_stopped_once:
  "launch_process env_stopped_once ''ls'' [] shell0
     = Some (1, (launched [''ls''])\<lparr>trace := [Sys_fork 1, Sys_waitpid 1 WUNTRACED,
                                               Sys_waitpid 1 WUNTRACED],
                                     n_wait := 2\<rparr>)"
  apply (simp add: launch_process_forked env_stopped_once_simps)
  apply (subst wait_loop_stopped)
   apply (simp add: env_stopped_once_simps shell0_def)
  apply (subst wait_loop_terminated)
   apply (simp add: env_stopped_once_simps shell0_def waited_def)
  apply (simp add: waited_def child_defs env_stopped_once_simps launched_def shell0_def)
  done

section \<open>Lines and their tokens\<close>

lemma fgets_chars_line:
  "CHR 0x0A \<notin> set line \<Longrightarrow> length line < n \<Longrightarrow>
     fgets_chars n (line @ CHR 0x0A # rest) = (line @ [CHR 0x0A], rest)"
proof (induction line arbitrary: n)
  case Nil
  then obtain k where "n = Suc k" by (cases n) auto
  then show ?case by simp
next
  case (Cons c cs)
  from Cons.prems obtain k where k: "n = Suc k" by (cases n) auto
  with Cons.prems have "fgets_chars k (cs @ CHR 0x0A # rest) = (cs @ [CHR 0x0A], rest)"
    by (intro Cons.IH) auto
  with k Cons.prems show ?case by auto
qed

lemma read_line_line:
  assumes "\<not> alloc_fails e (n_alloc s)" and "CHR 0x0A \<notin> set line" and "CHR 0x00 \<notin> set line"
    and "length line < 1023"
  shows "read_line e (line @ CHR 0x0A # rest) s = (Some (line, rest), s\<lparr>n_alloc := Suc (n_alloc s)\<rparr>)"
proof -
  from assms(2,4) have f: "fgets MAX_LINE_LENGTH (line @ CHR 0x0A # rest)
      = Some (line @ [CHR 0x0A], rest)"
    by (simp add: fgets_def MAX_LINE_LENGTH_def fgets_chars_line)
  from assms(3) have c: "c_string (line @ [CHR 0x0A]) = line @ [CHR 0x0A]"
    by (auto simp: c_string_def)
  from assms(1) f c show ?thesis
    by (simp add: read_line_def alloc_def Let_def nth_append)
qed

lemma tokens_Nil: "tokens [] = []"
  by (subst tokens.simps) (simp add: strtok_def)

lemma tokens_blank: "\<forall>c\<in>set cs. is_delim c \<Longrightarrow> tokens cs = []"
  by (subst tokens.simps) (simp add: strtok_def)

lemma strtok_token:
  assumes "strtok cs = Some (t, rest)"
  shows "t \<noteq> [] \<and> (\<forall>c\<in>set t. \<not> is_delim c)"
proof -
  define start where "start = dropWhile is_delim cs"
  from assms have ne: "start \<noteq> []" and t: "t = takeWhile (\<lambda>c. \<not> is_delim c) start"
    by (auto simp: strtok_def start_def Let_def split: if_splits)
  from ne have "\<not> is_delim (hd start)"
    unfolding start_def by (rule hd_dropWhile)
  with ne have "t \<noteq> []" unfolding t by (cases start) auto
  moreover have "\<forall>c\<in>set t. \<not> is_delim c"
    unfolding t by (auto dest: set_takeWhileD)
  ultimately show ?thesis ..
qed

lemma tokens_no_delim: "t \<in> set (tokens cs) \<Longrightarrow> t \<noteq> [] \<and> (\<forall>c\<in>set t. \<not> is_delim c)"
proof (induction cs rule: tokens.induct)
  case (1 cs)
  show ?case
  proof (cases "strtok cs")
    case None
    with "1.prems" show ?thesis by (subst (asm) tokens.simps) simp
  next
    case (Some p)
    obtain u rest where p: "p = (u, rest)" by (cases p)
    from "1.prems" Some p have "t = u \<or> t \<in> set (tokens rest)"
      by (subst (asm) tokens.simps) simp
    then show ?thesis
    proof
      assume "t = u"
      with strtok_token Some p show ?thesis by blast
    next
      assume "t \<in> set (tokens rest)"
      with "1.IH" [OF Some p [symmetric]] show ?thesis by simp
    qed
  qed
qed

lemma tokens_a: "tokens (''a '' @ rest) = ''a'' # tokens rest"
  by (subst tokens.simps) (simp add: strtok_def is_delim_def TOKEN_DELIMITERS_def)

lemma tokens_many: "tokens (concat (replicate n ''a '') @ rest) = replicate n ''a'' @ tokens rest"
proof (induction n)
  case 0
  then show ?case by simp
next
  case (Suc n)
  have "tokens (concat (replicate (Suc n) ''a '') @ rest)
      = tokens (''a '' @ (concat (replicate n ''a '') @ rest))"
    by simp
  also have "\<dots> = ''a'' # tokens (concat (replicate n ''a '') @ rest)"
    by (rule tokens_a)
  finally show ?case using Suc by simp
qed

lemma long_line_tokens: "tokens long_line = replicate 65 ''a''"
  using tokens_many [of 65 "[]"] by (simp add: long_line_def tokens_Nil)


lemma long_line_chars:
  "CHR 0x0A \<notin> set long_line" "CHR 0x00 \<notin> set long_line" "length long_line < 1023"
  by (simp_all add: long_line_def length_concat sum_list_replicate)
















section \<open>The claims\<close>

subsection \<open>Claim C1\<close>

text \<open>
  Claim C1. Whenever \<^verbatim>\<open>execute_command\<close> returns, it returns 0 or 1, and it returns 0 (stop)
  exactly when the first token is \<^verbatim>\<open>exit\<close>, whatever follows it. It does return for the
  empty command, for a built-in, when \<^verbatim>\<open>fork\<close> fails, and for an external command
  whose child is reported terminated (or \<^verbatim>\<open>waitpid\<close> fails) within \<open>n\<close> calls of
  \<^verbatim>\<open>waitpid\<close>. The empty command is a no-op that says continue, and \<^verbatim>\<open>handle_builtin\<close>
  says stop for \<^verbatim>\<open>exit\<close> only, also for a name it does not implement. A line of
  delimiters only parses (no allocation failing) to the empty command.
\<close>

theorem execute_command_continuation:
  "(execute_command e args s = Some (v, s') \<longrightarrow>
      (v = 0 \<or> v = 1) \<and> (v = 0 \<longleftrightarrow> args \<noteq> [] \<and> hd args = ''exit'')) \<and>
   (args = [] \<or> hd args \<in> set builtin_commands \<or> fork_fails e (n_fork s)
      \<or> wait_settles n e (n_wait s) \<longrightarrow> execute_command e args s \<noteq> None) \<and>
   execute_command e [] s = Some (1, s) \<and>
   execute_command e (''exit'' # rest) s = Some (0, s) \<and>
   fst (handle_builtin e arg0 rest s) = (if arg0 = ''exit'' then 0 else 1) \<and>
   ((\<forall>k. \<not> alloc_fails e k) \<and> (\<forall>c\<in>set line. is_delim c) \<longrightarrow>
      parse_line e line s = Some (Some [], s\<lparr>n_alloc := n_alloc s + 3\<rparr>))"
proof (intro conjI impI)
  assume "(\<forall>k. \<not> alloc_fails e k) \<and> (\<forall>c\<in>set line. is_delim c)"
  then show "parse_line e line s = Some (Some [], s\<lparr>n_alloc := n_alloc s + 3\<rparr>)"
    by (simp add: parse_line_allocs tokens_blank)
next
  assume ex: "execute_command e args s = Some (v, s')"
  show "v = 0 \<or> v = 1"
  proof (cases args)
    case Nil
    with ex show ?thesis by (simp add: execute_command_def)
  next
    case (Cons a as)
    show ?thesis
    proof (cases "a \<in> set builtin_commands")
      case True
      with ex Cons show ?thesis
        by (auto simp: execute_command_def handle_builtin_def Let_def
            split: list.splits option.splits if_splits)
    next
      case False
      with ex Cons have "launch_process e a as s = Some (v, s')"
        by (simp add: execute_command_def)
      then show ?thesis by (simp add: launch_process_value)
    qed
  qed
  show "v = 0 \<longleftrightarrow> args \<noteq> [] \<and> hd args = ''exit''"
  proof (cases args)
    case Nil
    with ex show ?thesis by (simp add: execute_command_def)
  next
    case (Cons a as)
    show ?thesis
    proof (cases "a \<in> set builtin_commands")
      case True
      with ex Cons show ?thesis
        by (auto simp: execute_command_def handle_builtin_def builtin_commands_def Let_def
            split: list.splits option.splits if_splits)
    next
      case False
      with ex Cons have "launch_process e a as s = Some (v, s')"
        by (simp add: execute_command_def)
      then have "v = 1" by (rule launch_process_value)
      with False Cons show ?thesis by (auto simp: builtin_commands_def)
    qed
  qed
next
  assume a: "args = [] \<or> hd args \<in> set builtin_commands \<or> fork_fails e (n_fork s)
      \<or> wait_settles n e (n_wait s)"
  show "execute_command e args s \<noteq> None"
  proof (cases args)
    case Nil
    then show ?thesis by (simp add: execute_command_def)
  next
    case (Cons a0 as)
    show ?thesis
    proof (cases "a0 \<in> set builtin_commands")
      case True
      with Cons show ?thesis by (simp add: execute_command_def)
    next
      case False
      with a Cons have "fork_fails e (n_fork s) \<or> wait_settles n e (n_wait s)" by simp
      then have "launch_process e a0 as s \<noteq> None" by (rule launch_process_returns)
      with False Cons show ?thesis by (simp add: execute_command_def)
    qed
  qed
next
  show "execute_command e [] s = Some (1, s)" by (simp add: execute_command_def)
  show "execute_command e (''exit'' # rest) s = Some (0, s)"
    by (simp add: execute_command_def builtin_commands_def handle_builtin_def)
  show "fst (handle_builtin e arg0 rest s) = (if arg0 = ''exit'' then 0 else 1)"
    by (auto simp: handle_builtin_def Let_def split: list.splits option.splits)
qed

theorem execute_command_continuation_witness:
  "execute_command env_ok [''ls'', ''-l''] shell0 \<noteq> None \<and>
   (\<exists>s'. execute_command env_ok [''ls'', ''-l''] shell0 = Some (1, s')) \<and>
   execute_command env_ok [''exit'', ''7''] shell0 = Some (0, shell0) \<and>
   wait_settles 1 env_ok (n_wait shell0) \<and>
   (\<forall>k. \<not> alloc_fails env_ok k) \<and>
   parse_line env_ok ''   '' shell0 = Some (Some [], shell0\<lparr>n_alloc := 3\<rparr>) \<and>
   execute_command env_ok [] (shell0\<lparr>n_alloc := 3\<rparr>) = Some (1, shell0\<lparr>n_alloc := 3\<rparr>)"
proof -
  have settles: "wait_settles 1 env_ok (n_wait shell0)"
    by (simp add: env_ok_def)
  have blank: "(\<forall>k. \<not> alloc_fails env_ok k) \<and> (\<forall>c\<in>set ''   ''. is_delim c)"
    by (simp add: env_ok_simps is_delim_def TOKEN_DELIMITERS_def)
  from execute_command_continuation
    [of env_ok "[]" shell0 1 shell0 1 "[]" "''exit''" "''   ''"] blank
  have "parse_line env_ok ''   '' shell0 = Some (Some [], shell0\<lparr>n_alloc := n_alloc shell0 + 3\<rparr>)"
    by blast
  then have parsed: "parse_line env_ok ''   '' shell0 = Some (Some [], shell0\<lparr>n_alloc := 3\<rparr>)"
    by (simp add: shell0_def)
  from execute_command_continuation
    [of env_ok "[]" "shell0\<lparr>n_alloc := 3\<rparr>" 1 shell0 1 "[]" "''exit''" "''   ''"]
  have empty: "execute_command env_ok [] (shell0\<lparr>n_alloc := 3\<rparr>)
      = Some (1, shell0\<lparr>n_alloc := 3\<rparr>)"
    by blast
  note c1 = execute_command_continuation
    [of env_ok "[''ls'', ''-l'']" shell0 _ _ 1 "[''7'']" "''exit''"]
  from c1 settles have ret: "execute_command env_ok [''ls'', ''-l''] shell0 \<noteq> None"
    by blast
  then obtain v s' where some: "execute_command env_ok [''ls'', ''-l''] shell0 = Some (v, s')"
    by (cases "execute_command env_ok [''ls'', ''-l''] shell0") auto
  from execute_command_continuation
    [of env_ok "[''ls'', ''-l'']" shell0 v s' 1 "[''7'']" "''exit''"] some
  have "v = 1" by auto
  with some have "\<exists>s'. execute_command env_ok [''ls'', ''-l''] shell0 = Some (1, s')" by blast
  moreover from c1 have "execute_command env_ok [''exit'', ''7''] shell0 = Some (0, shell0)"
    by blast
  ultimately show ?thesis using ret settles blank parsed empty by blast
qed

subsection \<open>Claim C2\<close>




subsection \<open>Claim C3\<close>




subsection \<open>Claim C4\<close>

text \<open>
  Claim C4. \<^verbatim>\<open>handle_pipe\<close> with an empty command on either side writes the usage
  error and returns at once: the state differs in the error stream only, so no channel
  was created and no child was forked. For a line of at most \<^verbatim>\<open>MAX_ARGS\<close> tokens whose
  first \<^verbatim>\<open>|\<close> token is the first or the last token (and no allocation failing),
  \<^verbatim>\<open>parse_line\<close> returns \<^verbatim>\<open>NULL\<close> with that error written and, again, nothing spawned.
\<close>

theorem empty_pipeline_half_is_rejected:
  "(command1 = [] \<or> command2 = [] \<longrightarrow>
      handle_pipe e command1 command2 s
        = Some (1, s\<lparr>stderr_log := stderr_log s @ [Message usage]\<rparr>) \<and>
      spawns_nothing s (s\<lparr>stderr_log := stderr_log s @ [Message usage]\<rparr>)) \<and>
   ((\<forall>k. \<not> alloc_fails e k) \<and> length (tokens line) \<le> MAX_ARGS \<and>
    find_pipe (tokens line) 0 = Some j \<and> (j = 0 \<or> Suc j = length (tokens line)) \<longrightarrow>
      parse_line e line s
        = Some (None, s\<lparr>stderr_log := stderr_log s @ [Message usage],
                         n_alloc := n_alloc s + 3 + length (tokens line)\<rparr>) \<and>
      spawns_nothing s (s\<lparr>stderr_log := stderr_log s @ [Message usage],
                          n_alloc := n_alloc s + 3 + length (tokens line)\<rparr>))"
proof (intro conjI impI)
  assume "command1 = [] \<or> command2 = []"
  then show "handle_pipe e command1 command2 s
        = Some (1, s\<lparr>stderr_log := stderr_log s @ [Message usage]\<rparr>)"
    by (simp add: handle_pipe_rejects eprint_def)
next
  assume a: "(\<forall>k. \<not> alloc_fails e k) \<and> length (tokens line) \<le> MAX_ARGS \<and>
    find_pipe (tokens line) 0 = Some j \<and> (j = 0 \<or> Suc j = length (tokens line))"
  then have "take j (tokens line) = [] \<or> drop (j + 1) (tokens line) = []" by auto
  then have "handle_pipe e (take j (tokens line)) (drop (j + 1) (tokens line))
       (s\<lparr>n_alloc := n_alloc s + 3 + length (tokens line)\<rparr>)
     = Some (1, eprint usage (s\<lparr>n_alloc := n_alloc s + 3 + length (tokens line)\<rparr>))"
    by (rule handle_pipe_rejects)
  moreover from a have "parse_line e line s =
     (case handle_pipe e (take j (tokens line)) (drop (j + 1) (tokens line))
             (s\<lparr>n_alloc := n_alloc s + 3 + length (tokens line)\<rparr>) of
        None \<Rightarrow> None
      | Some (v, s') \<Rightarrow> Some (None, s'))"
    by (simp add: parse_line_allocs)
  ultimately show "parse_line e line s
        = Some (None, s\<lparr>stderr_log := stderr_log s @ [Message usage],
                         n_alloc := n_alloc s + 3 + length (tokens line)\<rparr>)"
    by (simp add: eprint_def)
qed (simp_all add: spawns_nothing_def)

theorem empty_pipeline_half_is_rejected_witness:
  "parse_line env_ok ''| ls'' shell0
     = Some (None, shell0\<lparr>stderr_log := [Message usage], n_alloc := 5\<rparr>) \<and>
   parse_line env_ok ''ls |'' shell0
     = Some (None, shell0\<lparr>stderr_log := [Message usage], n_alloc := 5\<rparr>) \<and>
   handle_pipe env_ok [] [''ls''] shell0 = Some (1, shell0\<lparr>stderr_log := [Message usage]\<rparr>) \<and>
   spawns_nothing shell0 (shell0\<lparr>stderr_log := [Message usage], n_alloc := 5\<rparr>) \<and>
   (\<forall>k. \<not> alloc_fails env_ok k) \<and>
   length (tokens ''| ls'') \<le> MAX_ARGS \<and> find_pipe (tokens ''| ls'') 0 = Some 0 \<and>
   length (tokens ''ls |'') \<le> MAX_ARGS \<and> find_pipe (tokens ''ls |'') 0 = Some 1 \<and>
   Suc 1 = length (tokens ''ls |'')"
proof -
  have h1: "(\<forall>k. \<not> alloc_fails env_ok k) \<and> length (tokens ''| ls'') \<le> MAX_ARGS \<and>
    find_pipe (tokens ''| ls'') 0 = Some 0 \<and> ((0::nat) = 0 \<or> Suc 0 = length (tokens ''| ls''))"
    by (simp add: env_ok_simps empty_half_tokens MAX_ARGS_def)
  have h2: "(\<forall>k. \<not> alloc_fails env_ok k) \<and> length (tokens ''ls |'') \<le> MAX_ARGS \<and>
    find_pipe (tokens ''ls |'') 0 = Some 1 \<and> ((1::nat) = 0 \<or> Suc 1 = length (tokens ''ls |''))"
    by (simp add: env_ok_simps empty_half_tokens MAX_ARGS_def)
  from empty_pipeline_half_is_rejected [of "[]" "[''ls'']" env_ok shell0 "''| ls''" 0] h1
  have 1: "parse_line env_ok ''| ls'' shell0
     = Some (None, shell0\<lparr>stderr_log := [Message usage], n_alloc := 5\<rparr>)"
    and 3: "handle_pipe env_ok [] [''ls''] shell0 = Some (1, shell0\<lparr>stderr_log := [Message usage]\<rparr>)"
    by (simp_all add: shell0_def empty_half_tokens)
  from empty_pipeline_half_is_rejected [of "[]" "[''ls'']" env_ok shell0 "''ls |''" 1] h2
  have 2: "parse_line env_ok ''ls |'' shell0
     = Some (None, shell0\<lparr>stderr_log := [Message usage], n_alloc := 5\<rparr>)"
    and 4: "spawns_nothing shell0 (shell0\<lparr>stderr_log := [Message usage], n_alloc := 5\<rparr>)"
    by (simp_all add: shell0_def empty_half_tokens)
  from h2 have 5: "Suc 1 = length (tokens ''ls |'')" by simp
  from h1 h2 1 2 3 4 5 show ?thesis by blast
qed

subsection \<open>Claim C5\<close>

text \<open>
  Claim C5 on the code. \<^verbatim>\<open>parse_line\<close> does what the claim says (lemma
  \<open>parse_line_allocs\<close>: more than \<^verbatim>\<open>MAX_ARGS\<close> tokens give the error message and
  \<^verbatim>\<open>NULL\<close>, at most \<^verbatim>\<open>MAX_ARGS\<close> tokens never do), and \<^verbatim>\<open>main\<close> discards the line. But
  whether the interpreter continues is decided by \<^verbatim>\<open>while (status)\<close>, which the
  \<^verbatim>\<open>continue\<close> jumps to. When the line of 65 tokens is the first line of the session,
  \<^verbatim>\<open>status\<close> has never been assigned: the run below ends by reading it.
\<close>

theorem first_line_overflow_reads_unassigned_status:
  "main env_ok (long_line @ [CHR 0x0A]) shell0
     = Some (None, shell0\<lparr>sigint := SIG_IGN, stdout_log := [''> ''],
                           stderr_log := [Message too_many], trace := [Sys_signal SIG_IGN],
                           n_alloc := 68\<rparr>)"
proof -
  let ?s = "print ''> '' (signal SIG_IGN shell0)"
  have rl: "read_line env_ok (long_line @ CHR 0x0A # []) ?s
      = (Some (long_line, []), ?s\<lparr>n_alloc := Suc (n_alloc ?s)\<rparr>)"
    by (rule read_line_line) (simp_all add: env_ok_simps long_line_chars)
  have pl: "parse_line env_ok long_line (?s\<lparr>n_alloc := Suc (n_alloc ?s)\<rparr>)
      = Some (None, eprint too_many (?s\<lparr>n_alloc := 68\<rparr>))"
    by (simp add: parse_line_allocs [OF env_ok_allocs] long_line_tokens MAX_ARGS_def
          print_def signal_def sys_def shell0_def)
  from main_loop_parse_NULL [of env_ok "long_line @ [CHR 0x0A]" "signal SIG_IGN shell0"
      long_line "[]" _ _ None] rl pl
  have "main_loop env_ok None (long_line @ [CHR 0x0A]) (signal SIG_IGN shell0)
      = Some (Reads_unassigned_status, eprint too_many (?s\<lparr>n_alloc := 68\<rparr>))"
    by simp
  then show ?thesis
    by (simp add: main_def eprint_def print_def signal_def sys_def shell0_def)
qed

subsection \<open>Claim C6\<close>



subsection \<open>Claim C7\<close>



subsection \<open>Claim C8\<close>

text \<open>
  Claim C8. When \<^verbatim>\<open>chdir\<close> fails on the argument of \<^verbatim>\<open>cd\<close>, the built-in reports the
  system error with \<^verbatim>\<open>perror\<close>, leaves the working directory (and everything else but
  the error stream and the record of the call) as it was, and returns 1, continue; so does
  \<^verbatim>\<open>execute_command\<close>. When \<^verbatim>\<open>chdir\<close> succeeds the working directory is where it
  leads. Without an argument \<^verbatim>\<open>cd\<close> reads \<^verbatim>\<open>HOME\<close>: if it is not set, a message is
  written, no \<^verbatim>\<open>chdir\<close> is made and the result is 1; if it is set, \<^verbatim>\<open>cd\<close> does what
  \<^verbatim>\<open>cd\<close> with that directory as its argument does.
\<close>

theorem cd_failure_is_reported_and_not_fatal:
  "(chdir_res e (cwd s) path = None \<longrightarrow>
      handle_builtin e ''cd'' (path # others) s
        = (1, s\<lparr>stderr_log := stderr_log s @ [Perror ''shell''],
                 trace := trace s @ [Sys_chdir path]\<rparr>) \<and>
      execute_command e (''cd'' # path # others) s
        = Some (1, s\<lparr>stderr_log := stderr_log s @ [Perror ''shell''],
                      trace := trace s @ [Sys_chdir path]\<rparr>) \<and>
      cwd (snd (handle_builtin e ''cd'' (path # others) s)) = cwd s) \<and>
   (chdir_res e (cwd s) path = Some dir \<longrightarrow>
      execute_command e (''cd'' # path # others) s
        = Some (1, s\<lparr>cwd := dir, trace := trace s @ [Sys_chdir path]\<rparr>)) \<and>
   (HOME e = None \<longrightarrow>
      handle_builtin e ''cd'' [] s = (1, s\<lparr>stderr_log := stderr_log s @ [Message no_home]\<rparr>) \<and>
      execute_command e [''cd''] s
        = Some (1, s\<lparr>stderr_log := stderr_log s @ [Message no_home]\<rparr>)) \<and>
   (HOME e = Some home_dir \<longrightarrow>
      execute_command e [''cd''] s = execute_command e [''cd'', home_dir] s)"
  by (simp add: execute_command_def builtin_commands_def handle_builtin_def chdir_def
        perror_def eprint_def sys_def no_home_def Let_def)

theorem cd_failure_is_reported_and_not_fatal_witness:
  "chdir_res env_ok (cwd shell0) ''/nonexistent-path'' = None \<and>
   execute_command env_ok [''cd'', ''/nonexistent-path''] shell0
     = Some (1, shell0\<lparr>stderr_log := [Perror ''shell''],
                       trace := [Sys_chdir ''/nonexistent-path'']\<rparr>) \<and>
   chdir_res env_ok (cwd shell0) ''/tmp'' = Some ''/tmp'' \<and>
   execute_command env_ok [''cd'', ''/tmp''] shell0
     = Some (1, shell0\<lparr>cwd := ''/tmp'', trace := [Sys_chdir ''/tmp'']\<rparr>) \<and>
   HOME (env_ok\<lparr>HOME := None\<rparr>) = None \<and>
   execute_command (env_ok\<lparr>HOME := None\<rparr>) [''cd''] shell0
     = Some (1, shell0\<lparr>stderr_log := [Message no_home]\<rparr>) \<and>
   HOME env_ok = Some ''/home/user'' \<and>
   execute_command env_ok [''cd''] shell0 = execute_command env_ok [''cd'', ''/home/user''] shell0"
proof -
  have a: "chdir_res env_ok (cwd shell0) ''/nonexistent-path'' = None"
    by (simp add: env_ok_simps)
  have b: "chdir_res env_ok (cwd shell0) ''/tmp'' = Some ''/tmp''"
    by (simp add: env_ok_simps)
  have c: "HOME (env_ok\<lparr>HOME := None\<rparr>) = None" by simp
  have d: "HOME env_ok = Some ''/home/user''" by (simp add: env_ok_simps)
  from cd_failure_is_reported_and_not_fatal
    [of env_ok shell0 "''/nonexistent-path''" "[]" "''/tmp''" "''/home/user''"] a d
  have 1: "execute_command env_ok [''cd'', ''/nonexistent-path''] shell0
     = Some (1, shell0\<lparr>stderr_log := [Perror ''shell''],
                       trace := [Sys_chdir ''/nonexistent-path'']\<rparr>)"
    and 4: "execute_command env_ok [''cd''] shell0
      = execute_command env_ok [''cd'', ''/home/user''] shell0"
    by (simp_all add: shell0_def)
  from cd_failure_is_reported_and_not_fatal
    [of env_ok shell0 "''/tmp''" "[]" "''/tmp''" "''/home/user''"] b
  have 2: "execute_command env_ok [''cd'', ''/tmp''] shell0
     = Some (1, shell0\<lparr>cwd := ''/tmp'', trace := [Sys_chdir ''/tmp'']\<rparr>)"
    by (simp add: shell0_def)
  from cd_failure_is_reported_and_not_fatal
    [of "env_ok\<lparr>HOME := None\<rparr>" shell0 "''/tmp''" "[]" "''/tmp''" "''/home/user''"] c
  have 3: "execute_command (env_ok\<lparr>HOME := None\<rparr>) [''cd''] shell0
     = Some (1, shell0\<lparr>stderr_log := [Message no_home]\<rparr>)"
    by (simp add: shell0_def)
  from a b c d 1 2 3 4 show ?thesis by blast
qed

subsection \<open>Claim C9\<close>

text \<open>
  Claim C9, amended. When \<^verbatim>\<open>fork\<close> has succeeded and \<^verbatim>\<open>launch_process\<close> returns, it
  returns 1 and has called \<^verbatim>\<open>waitpid\<close> at least once, each time for the pid of the child
  it forked and with \<^verbatim>\<open>WUNTRACED\<close>; every call but the last reported the child stopped,
  and the last either reported it exited or killed by a signal, or failed, in which
  case \<^verbatim>\<open>waitpid failed\<close> is reported. So the last \<^verbatim>\<open>waitpid\<close> saw the child terminated
  unless it failed. The call returns when \<^verbatim>\<open>waitpid\<close> settles within \<open>n\<close> calls, and it
  never returns when the child is reported stopped for ever.
\<close>

theorem launch_process_waits_for_its_child:
  "(\<not> fork_fails e (n_fork s) \<and> launch_process e arg0 rest s = Some (v, s') \<longrightarrow>
      v = 1 \<and>
      (\<exists>m. (\<forall>j<m. is_stopped (waitpid_res e (n_wait s + j))) \<and>
           n_wait s' = n_wait s + Suc m \<and>
           trace s' = trace s @ Sys_fork (Suc (n_fork s))
                        # replicate (Suc m) (Sys_waitpid (Suc (n_fork s)) WUNTRACED) \<and>
           (is_terminated (waitpid_res e (n_wait s + m)) \<and> stderr_log s' = stderr_log s
            \<or> waitpid_res e (n_wait s + m) = Wait_failed
              \<and> stderr_log s' = stderr_log s @ [Perror ''waitpid failed'']))) \<and>
   (\<not> fork_fails e (n_fork s) \<and> launch_process e arg0 rest s = Some (v, s') \<longrightarrow>
      last_wait_terminated e s s' \<or> waitpid_res e (n_wait s' - 1) = Wait_failed) \<and>
   (wait_settles n e (n_wait s) \<longrightarrow> launch_process e arg0 rest s \<noteq> None) \<and>
   (\<not> fork_fails e (n_fork s) \<and> (\<forall>k. is_stopped (waitpid_res e k)) \<longrightarrow>
      launch_process e arg0 rest s = None)"
proof -
  let ?pid = "Suc (n_fork s)"
  let ?s1 = "s\<lparr>children := children s @ [launch_child e (arg0 # rest) (forked ?pid s)],
                trace := trace s @ [Sys_fork ?pid], n_fork := ?pid\<rparr>"
  have main: "v = 1 \<and>
      (\<exists>m. (\<forall>j<m. is_stopped (waitpid_res e (n_wait s + j))) \<and>
           n_wait s' = n_wait s + Suc m \<and>
           trace s' = trace s @ Sys_fork ?pid # replicate (Suc m) (Sys_waitpid ?pid WUNTRACED) \<and>
           (is_terminated (waitpid_res e (n_wait s + m)) \<and> stderr_log s' = stderr_log s
            \<or> waitpid_res e (n_wait s + m) = Wait_failed
              \<and> stderr_log s' = stderr_log s @ [Perror ''waitpid failed'']))"
    if nf: "\<not> fork_fails e (n_fork s)" and lp: "launch_process e arg0 rest s = Some (v, s')"
  proof -
    from lp launch_process_forked [OF nf, of arg0 rest]
    obtain r where wl: "wait_loop e ?pid ?s1 = Some (r, s')" and v: "v = 1"
      by (auto split: option.splits)
    from wait_loop_Some_aux [OF wl] obtain m where
      st: "\<forall>j<m. is_stopped (waitpid_res e (n_wait ?s1 + j))" and
      fin: "is_terminated (waitpid_res e (n_wait ?s1 + m)) \<and> s' = waited (Suc m) ?pid ?s1
            \<or> waitpid_res e (n_wait ?s1 + m) = Wait_failed
              \<and> s' = perror ''waitpid failed'' (waited (Suc m) ?pid ?s1)"
      by auto
    from st have 1: "\<forall>j<m. is_stopped (waitpid_res e (n_wait s + j))" by simp
    from fin have 2: "n_wait s' = n_wait s + Suc m"
      by (auto simp: waited_def perror_def)
    from fin have 3: "trace s' = trace s @ Sys_fork ?pid
        # replicate (Suc m) (Sys_waitpid ?pid WUNTRACED)"
      by (auto simp: waited_def perror_def)
    from fin have 4: "is_terminated (waitpid_res e (n_wait s + m)) \<and> stderr_log s' = stderr_log s
            \<or> waitpid_res e (n_wait s + m) = Wait_failed
              \<and> stderr_log s' = stderr_log s @ [Perror ''waitpid failed'']"
      by (auto simp: waited_def perror_def)
    from v 1 2 3 4 show ?thesis by blast
  qed
  have last: "last_wait_terminated e s s' \<or> waitpid_res e (n_wait s' - 1) = Wait_failed"
    if nf: "\<not> fork_fails e (n_fork s)" and lp: "launch_process e arg0 rest s = Some (v, s')"
  proof -
    from main [OF nf lp] obtain m where "n_wait s' = n_wait s + Suc m"
      and "is_terminated (waitpid_res e (n_wait s + m))
            \<or> waitpid_res e (n_wait s + m) = Wait_failed"
      by blast
    then show ?thesis by (auto simp: last_wait_terminated_def)
  qed
  have ret: "launch_process e arg0 rest s \<noteq> None" if "wait_settles n e (n_wait s)"
    by (rule launch_process_returns) (use that in blast)
  have never: "launch_process e arg0 rest s = None"
    if nf: "\<not> fork_fails e (n_fork s)" and st: "\<forall>k. is_stopped (waitpid_res e k)"
  proof (rule ccontr)
    assume "launch_process e arg0 rest s \<noteq> None"
    then obtain w t where lp: "launch_process e arg0 rest s = Some (w, t)" by auto
    from launch_process_forked [OF nf, of arg0 rest] lp
    obtain r where wl: "wait_loop e ?pid ?s1 = Some (r, t)"
      by (auto split: option.splits)
    from wait_loop_Some_aux [OF wl] obtain m where
      "is_terminated (waitpid_res e (n_wait ?s1 + m))
         \<or> waitpid_res e (n_wait ?s1 + m) = Wait_failed"
      by auto
    moreover from st have "is_stopped (waitpid_res e (n_wait ?s1 + m))" by blast
    ultimately show False
      by (cases "waitpid_res e (n_wait ?s1 + m)") auto
  qed
  from main last ret never show ?thesis by blast
qed

theorem launch_process_waits_for_its_child_witness:
  "\<not> fork_fails env_stopped_once (n_fork shell0) \<and>
   wait_settles 2 env_stopped_once (n_wait shell0) \<and>
   is_stopped (waitpid_res env_stopped_once 0) \<and>
   is_terminated (waitpid_res env_stopped_once 1) \<and>
   launch_process env_stopped_once ''ls'' [] shell0
     = Some (1, (launched [''ls''])\<lparr>trace := [Sys_fork 1, Sys_waitpid 1 WUNTRACED,
                                               Sys_waitpid 1 WUNTRACED],
                                     n_wait := 2\<rparr>) \<and>
   last_wait_terminated env_stopped_once shell0
     ((launched [''ls''])\<lparr>trace := [Sys_fork 1, Sys_waitpid 1 WUNTRACED,
                                     Sys_waitpid 1 WUNTRACED],
                           n_wait := 2\<rparr>)"
proof -
  let ?end = "(launched [''ls''])\<lparr>trace := [Sys_fork 1, Sys_waitpid 1 WUNTRACED,
                                     Sys_waitpid 1 WUNTRACED], n_wait := 2\<rparr>"
  have nf: "\<not> fork_fails env_stopped_once (n_fork shell0)"
    by (simp add: env_stopped_once_simps)
  have ws: "wait_settles 2 env_stopped_once (n_wait shell0)"
    by (simp add: env_stopped_once_simps shell0_def eval_nat_numeral)
  have st: "is_stopped (waitpid_res env_stopped_once 0)"
    and tm: "is_terminated (waitpid_res env_stopped_once 1)"
    by (simp_all add: env_stopped_once_simps)
  have nw: "waitpid_res env_stopped_once (n_wait ?end - 1) \<noteq> Wait_failed"
    by (simp add: env_stopped_once_simps launched_def)
  from launch_process_waits_for_its_child
    [of env_stopped_once shell0 "''ls''" "[]" 1 ?end 2] nf launch_stopped_once nw
  have "last_wait_terminated env_stopped_once shell0 ?end" by blast
  with nf ws st tm launch_stopped_once show ?thesis by blast
qed

text \<open>
  Claim C9 as stated, that the loop always runs until the child has exited or been killed,
  fails when \<^verbatim>\<open>waitpid\<close> returns \<open>-1\<close>: \<^verbatim>\<open>launch_process\<close> reports the failure and
  returns 1 although no call saw the child terminated.
\<close>

theorem launch_process_returns_when_waitpid_fails:
  "\<not> fork_fails env_wait_fails (n_fork shell0) \<and>
   launch_process env_wait_fails ''ls'' [] shell0
     = Some (1, (launched [''ls''])\<lparr>stderr_log := [Perror ''waitpid failed''],
                                     trace := [Sys_fork 1, Sys_waitpid 1 WUNTRACED],
                                     n_wait := 1\<rparr>) \<and>
   \<not> last_wait_terminated env_wait_fails shell0
       ((launched [''ls''])\<lparr>stderr_log := [Perror ''waitpid failed''],
                            trace := [Sys_fork 1, Sys_waitpid 1 WUNTRACED],
                            n_wait := 1\<rparr>)"
  using launch_wait_fails
  by (simp add: env_wait_fails_simps last_wait_terminated_def)

subsection \<open>Claim C10\<close>




end
